theory Spec2Isabelle
  imports Complex_Main "HOL-Library.Sublist" "HOL-Library.AList" "HOL-Library.Multiset"
begin

section \<open>Python values and errors\<close>

text \<open>
  The module \<^verbatim>\<open>server_manager.py\<close> is modelled function by function. Python floats
  are modelled as \<^typ>\<open>real\<close> (rounding is not modelled), Python strings as
  \<^typ>\<open>string\<close>, and every exception a function can raise is a value of \<open>py_error\<close>
  returned on the left of a sum.
\<close>

datatype py_error = ZeroDivisionError | ValueError | TypeError | AttributeError
  | TimeoutExpired | FileNotFoundError | SocketTimeout | SocketError | OtherError

section \<open>Python strings\<close>

text \<open>
  A Python \<^verbatim>\<open>str\<close> is a \<^typ>\<open>string\<close>; its characters are the 256 code points
  of \<^typ>\<open>char\<close>, so that \<^verbatim>\<open>\d\<close> is \<open>0\<close> to \<open>9\<close>. \<^verbatim>\<open>needle in s\<close> is
  \<^const>\<open>sublist\<close>, \<^verbatim>\<open>s.startswith(p)\<close> is \<^const>\<open>prefix\<close>.
\<close>

definition is_digit :: "char \<Rightarrow> bool" where
  "is_digit c \<longleftrightarrow> c \<in> set ''0123456789''"

text \<open>The character class \<^verbatim>\<open>[\d.]\<close>.\<close>

definition is_digit_or_dot :: "char \<Rightarrow> bool" where
  "is_digit_or_dot c \<longleftrightarrow> is_digit c \<or> c = CHR ''.''"

text \<open>The characters \<^verbatim>\<open>str.strip()\<close> removes: those for which \<^verbatim>\<open>str.isspace()\<close> holds.\<close>

definition is_space :: "char \<Rightarrow> bool" where
  "is_space c \<longleftrightarrow> c \<in> set [CHR 0x09, CHR ''\<newline>'', CHR 0x0B, CHR 0x0C, CHR 0x0D,
      CHR 0x1C, CHR 0x1D, CHR 0x1E, CHR 0x1F, CHR '' '', CHR 0x85, CHR 0xA0]"

text \<open>The line boundaries of \<^verbatim>\<open>str.splitlines()\<close>; \<^verbatim>\<open>\r\n\<close> counts as one.\<close>

definition is_linebreak :: "char \<Rightarrow> bool" where
  "is_linebreak c \<longleftrightarrow> c \<in> set [CHR ''\<newline>'', CHR 0x0B, CHR 0x0C, CHR 0x0D,
      CHR 0x1C, CHR 0x1D, CHR 0x1E, CHR 0x85]"

fun splitlines_from :: "string \<Rightarrow> string \<Rightarrow> string list" where
  "splitlines_from cur [] = (if cur = [] then [] else [cur])"
| "splitlines_from cur [c] = (if is_linebreak c then [cur] else [cur @ [c]])"
| "splitlines_from cur (c # d # cs) =
     (if c = CHR 0x0D \<and> d = CHR ''\<newline>'' then cur # splitlines_from [] cs
      else if is_linebreak c then cur # splitlines_from [] (d # cs)
      else splitlines_from (cur @ [c]) (d # cs))"

definition py_splitlines :: "string \<Rightarrow> string list" where
  "py_splitlines s = splitlines_from [] s"

text \<open>\<^verbatim>\<open>s.split(sep)\<close> for a separator of one character: never an empty list.\<close>

fun py_split :: "char \<Rightarrow> string \<Rightarrow> string list" where
  "py_split sep [] = [[]]"
| "py_split sep (c # cs) =
     (if c = sep then [] # py_split sep cs
      else (case py_split sep cs of
              [] \<Rightarrow> [[c]]
            | p # ps \<Rightarrow> (c # p) # ps))"

definition py_strip :: "string \<Rightarrow> string" where
  "py_strip s = rev (dropWhile is_space (rev (dropWhile is_space s)))"

text \<open>\<^verbatim>\<open>str.lower()\<close>: the ASCII capitals and the capitals of Latin-1.\<close>

definition lower_char :: "char \<Rightarrow> char" where
  "lower_char c =
     (let n = (of_char c :: nat)
      in if (65 \<le> n \<and> n \<le> 90) \<or> (192 \<le> n \<and> n \<le> 222 \<and> n \<noteq> 215)
         then char_of (n + 32) else c)"

definition py_lower :: "string \<Rightarrow> string" where
  "py_lower s = map lower_char s"

subsection \<open>Conversion to float\<close>

definition digit_val :: "char \<Rightarrow> nat" where
  "digit_val c = (of_char c :: nat) - 48"

text \<open>The value of a run of decimal digits, the most significant first.\<close>

definition digits_val :: "string \<Rightarrow> nat" where
  "digits_val ds = foldl (\<lambda>acc c. 10 * acc + digit_val c) 0 ds"

text \<open>
  \<^verbatim>\<open>float(s)\<close> on a text of digits and dots: the text is a float literal when it has at
  most one dot and at least one digit (\<^verbatim>\<open>"15"\<close>, \<^verbatim>\<open>"23.4"\<close>, \<^verbatim>\<open>"1."\<close>, \<^verbatim>\<open>".5"\<close>);
  otherwise (\<^verbatim>\<open>""\<close>, \<^verbatim>\<open>"."\<close>, \<^verbatim>\<open>"1.2.3"\<close>) Python raises ValueError, which is \<open>None\<close>.
\<close>

definition float_of_decimal :: "string \<Rightarrow> real option" where
  "float_of_decimal s =
     (let ip = takeWhile is_digit s; rest = dropWhile is_digit s
      in if rest = [] then (if ip = [] then None else Some (real (digits_val ip)))
         else if hd rest = CHR ''.'' \<and> list_all is_digit (tl rest) \<and> (ip \<noteq> [] \<or> tl rest \<noteq> [])
         then Some (real (digits_val ip) + real (digits_val (tl rest)) / 10 ^ length (tl rest))
         else None)"

text \<open>
  \<^verbatim>\<open>float(s)\<close> on any text. On digits and dots it is computed as above. On other text
  (signs, exponents, blanks, \<^verbatim>\<open>inf\<close>, \<^verbatim>\<open>nan\<close>) the builtin's answer is the parameter
  \<open>ext\<close>, with \<open>None\<close> for ValueError; every property below holds for every \<open>ext\<close>.
\<close>

definition py_float :: "(string \<Rightarrow> real option) \<Rightarrow> string \<Rightarrow> py_error + real" where
  "py_float ext s =
     (case (if list_all is_digit_or_dot s then float_of_decimal s else ext s) of
        None \<Rightarrow> Inl ValueError
      | Some v \<Rightarrow> Inr v)"

section \<open>Parsing the output of ping\<close>

text \<open>
  \<^verbatim>\<open>re.search(pattern, output)\<close> tries the pattern at each position from the left and takes
  the first position where it matches; \<open>m\<close> matches the pattern at the start of its
  argument and returns the captured group.
\<close>

fun re_search :: "(string \<Rightarrow> 'a option) \<Rightarrow> string \<Rightarrow> 'a option" where
  "re_search m [] = m []"
| "re_search m (c # cs) = (case m (c # cs) of Some g \<Rightarrow> Some g | None \<Rightarrow> re_search m cs)"

text \<open>A literal of the pattern: the rest of the text after it.\<close>

definition lit :: "string \<Rightarrow> string \<Rightarrow> string option" where
  "lit p s = (if prefix p s then Some (drop (length p) s) else None)"

text \<open>
  A greedy \<^verbatim>\<open>[class]+\<close> that is followed in the pattern by a character outside the class:
  the longest run, which must not be empty (giving characters back cannot help, since
  the next character of the text would still be in the class).
\<close>

definition plus_class :: "(char \<Rightarrow> bool) \<Rightarrow> string \<Rightarrow> (string \<times> string) option" where
  "plus_class P s =
     (if takeWhile P s = [] then None else Some (takeWhile P s, dropWhile P s))"

text \<open>
  \<^verbatim>\<open>rtt min/avg/max/mdev = [\d.]+/([\d.]+)/[\d.]+/[\d.]+ ms\<close> at the start of the text.
\<close>

definition rtt_match :: "string \<Rightarrow> string option" where
  "rtt_match s =
     Option.bind (lit ''rtt min/avg/max/mdev = '' s) (\<lambda>s1.
     Option.bind (plus_class is_digit_or_dot s1) (\<lambda>(a, s2).
     Option.bind (lit ''/'' s2) (\<lambda>s3.
     Option.bind (plus_class is_digit_or_dot s3) (\<lambda>(b, s4).
     Option.bind (lit ''/'' s4) (\<lambda>s5.
     Option.bind (plus_class is_digit_or_dot s5) (\<lambda>(c, s6).
     Option.bind (lit ''/'' s6) (\<lambda>s7.
     Option.bind (plus_class is_digit_or_dot s7) (\<lambda>(d, s8).
     Option.bind (lit '' ms'' s8) (\<lambda>s9. Some b)))))))))"

text \<open>
  The fallback loop of \<open>parse_unix_ping\<close>:
  \<^verbatim>\<open>
  for line in output.splitlines():
      if "avg" in line and "=" in line:
          try:
              parts = line.split('=')[1].strip().split('/')
              if len(parts) >= 2:
                  return float(parts[1])
          except (IndexError, ValueError):
              continue
  return None
  \<close>
  \<open>line.split('=')[1]\<close> raises IndexError when the split has one part only.
\<close>

fun avg_scan :: "(string \<Rightarrow> real option) \<Rightarrow> string list \<Rightarrow> real option" where
  "avg_scan ext [] = None"
| "avg_scan ext (line # lines) =
     (if sublist ''avg'' line \<and> sublist ''='' line then
        (case py_split (CHR ''='') line of
           f # snd_part # more \<Rightarrow>
             (let parts = py_split (CHR ''/'') (py_strip snd_part)
              in if 2 \<le> length parts then
                   (case py_float ext (parts ! 1) of
                      Inr v \<Rightarrow> Some v
                    | Inl e \<Rightarrow> avg_scan ext lines)
                 else avg_scan ext lines)
         | _ \<Rightarrow> avg_scan ext lines)
      else avg_scan ext lines)"

text \<open>
  \<^verbatim>\<open>
  def parse_unix_ping(output: str) -> Optional[float]:
      match = re.search(r'rtt min/avg/max/mdev = [\d.]+/([\d.]+)/[\d.]+/[\d.]+ ms', output)
      if match:
          return float(match.group(1))
      ... the fallback loop ...
  \<close>
  The conversion of the captured group is outside every \<^verbatim>\<open>try\<close>: its ValueError leaves
  the function.
\<close>

definition parse_unix_ping :: "(string \<Rightarrow> real option) \<Rightarrow> string \<Rightarrow> py_error + real option" where
  "parse_unix_ping ext output =
     (case re_search rtt_match output of
        Some g \<Rightarrow> (case py_float ext g of Inl e \<Rightarrow> Inl e | Inr v \<Rightarrow> Inr (Some v))
      | None \<Rightarrow> Inr (avg_scan ext (py_splitlines output)))"

text \<open>\<^verbatim>\<open>Average = (\d+)ms\<close> at the start of the text.\<close>

definition average_match :: "string \<Rightarrow> string option" where
  "average_match s =
     Option.bind (lit ''Average = '' s) (\<lambda>s1.
     Option.bind (plus_class is_digit s1) (\<lambda>(n, s2).
     Option.bind (lit ''ms'' s2) (\<lambda>s3. Some n)))"

text \<open>
  \<^verbatim>\<open>
  def parse_windows_ping(output: str) -> Optional[float]:
      match = re.search(r"Average = (\d+)ms", output)
      if match:
          return float(match.group(1))
      return None
  \<close>
\<close>

definition parse_windows_ping :: "(string \<Rightarrow> real option) \<Rightarrow> string \<Rightarrow> py_error + real option" where
  "parse_windows_ping ext output =
     (case re_search average_match output of
        Some g \<Rightarrow> (case py_float ext g of Inl e \<Rightarrow> Inl e | Inr v \<Rightarrow> Inr (Some v))
      | None \<Rightarrow> Inr None)"

section \<open>Python values\<close>

text \<open>
  The values of type \<^verbatim>\<open>Any\<close> found in the relay data. A dictionary is an association
  list with distinct keys in insertion order: \<^const>\<open>map_of\<close> reads it and
  \<^const>\<open>AList.update\<close> assigns to a key, in place when the key is there and at the
  end otherwise.
\<close>

datatype pyval = VNone | VBool bool | VInt int | VFloat real | VStr string
  | VList "pyval list" | VDict "(string \<times> pyval) list"

type_synonym pydict = "(string \<times> pyval) list"

text \<open>Truth value testing, as in \<^verbatim>\<open>if not x\<close>.\<close>

fun truthy :: "pyval \<Rightarrow> bool" where
  "truthy VNone = False"
| "truthy (VBool b) = b"
| "truthy (VInt i) = (i \<noteq> 0)"
| "truthy (VFloat r) = (r \<noteq> 0)"
| "truthy (VStr s) = (s \<noteq> [])"
| "truthy (VList xs) = (xs \<noteq> [])"
| "truthy (VDict d) = (d \<noteq> [])"

text \<open>\<^verbatim>\<open>d.get(k, default)\<close>; \<^verbatim>\<open>d.get(k)\<close> has the default \<^verbatim>\<open>None\<close>.\<close>

definition dict_get_default :: "pydict \<Rightarrow> string \<Rightarrow> pyval \<Rightarrow> pyval" where
  "dict_get_default d k dflt = (case map_of d k of None \<Rightarrow> dflt | Some v \<Rightarrow> v)"

definition dict_get :: "pydict \<Rightarrow> string \<Rightarrow> pyval" where
  "dict_get d k = dict_get_default d k VNone"

text \<open>What a \<^verbatim>\<open>for\<close> loop iterates over; numbers and \<^verbatim>\<open>None\<close> are not iterable.\<close>

fun py_iter :: "pyval \<Rightarrow> py_error + pyval list" where
  "py_iter (VList xs) = Inr xs"
| "py_iter (VStr s) = Inr (map (\<lambda>c. VStr [c]) s)"
| "py_iter (VDict d) = Inr (map (\<lambda>kv. VStr (fst kv)) d)"
| "py_iter v = Inl TypeError"

text \<open>\<^verbatim>\<open>str(n)\<close> for an integer.\<close>

fun str_nat :: "nat \<Rightarrow> string" where
  "str_nat n =
     (if n < 10 then [char_of (48 + n)]
      else str_nat (n div 10) @ [char_of (48 + n mod 10)])"

definition py_str_int :: "int \<Rightarrow> string" where
  "py_str_int i = (if i < 0 then CHR ''-'' # str_nat (nat (- i)) else str_nat (nat i))"

section \<open>The host: platform, subprocesses, sockets\<close>

text \<open>
  What \<^verbatim>\<open>subprocess.run(cmd, capture_output=True, text=True, timeout=t)\<close> returns when it
  does not raise.
\<close>

record completed_process =
  returncode :: int
  stdout :: string
  stderr :: string

text \<open>
  The machine the module runs on: the answer of \<^verbatim>\<open>platform.system()\<close>, what running a
  command with a timeout gives (a completed process, or the exception raised), and the
  builtin \<^verbatim>\<open>float\<close> outside plain decimal text.
\<close>

record host =
  platform_system :: string
  subprocess_run :: "string list \<Rightarrow> int \<Rightarrow> py_error + completed_process"
  float_ext :: "string \<Rightarrow> real option"

text \<open>The operations on the outside world that a call performs, in order.\<close>

datatype effect = RunProcess "string list" | SocketConnect string int

section \<open>Latency probe\<close>

text \<open>
  The \<^verbatim>\<open>try\<close> block of \<open>ping_test\<close>; an exception raised in it is returned on the
  left. \<^verbatim>\<open>' '.join(cmd)\<close> in the debug message raises TypeError when the target is not
  a string, before any process is run.
  \<^verbatim>\<open>
  if system == "windows":
      cmd = ['ping', '-n', str(count), '-w', str(timeout_sec * 1000), target_ip]
      parse_func = parse_windows_ping
  else:
      cmd = ['ping', '-c', str(count), '-W', str(timeout_sec), target_ip]
      parse_func = parse_unix_ping
  logger.debug(f"Executing ping command: {' '.join(cmd)}")
  result = subprocess.run(cmd, capture_output=True, text=True, timeout=timeout_sec + 2)
  if result.returncode != 0:
      ...
      return None
  avg_latency = parse_func(result.stdout)
  return avg_latency
  \<close>
\<close>

definition ping_command :: "string \<Rightarrow> int \<Rightarrow> int \<Rightarrow> string \<Rightarrow> string list" where
  "ping_command system count' timeout_sec target_ip =
     (if system = ''windows''
      then [''ping'', ''-n'', py_str_int count', ''-w'', py_str_int (timeout_sec * 1000), target_ip]
      else [''ping'', ''-c'', py_str_int count', ''-W'', py_str_int timeout_sec, target_ip])"

definition parse_func :: "string \<Rightarrow> (string \<Rightarrow> real option) \<Rightarrow> string \<Rightarrow> py_error + real option" where
  "parse_func system = (if system = ''windows'' then parse_windows_ping else parse_unix_ping)"

definition ping_try :: "host \<Rightarrow> string \<Rightarrow> pyval \<Rightarrow> int \<Rightarrow> int \<Rightarrow> (py_error + real option) \<times> effect list" where
  "ping_try h system target_ip count' timeout_sec =
     (case target_ip of
        VStr ip \<Rightarrow>
          (let cmd = ping_command system count' timeout_sec ip
           in (case subprocess_run h cmd (timeout_sec + 2) of
                 Inl e \<Rightarrow> (Inl e, [RunProcess cmd])
               | Inr result \<Rightarrow>
                   if returncode result \<noteq> 0 then (Inr None, [RunProcess cmd])
                   else (parse_func system (float_ext h) (stdout result), [RunProcess cmd])))
      | _ \<Rightarrow> (Inl TypeError, []))"

text \<open>
  \<^verbatim>\<open>
  def ping_test(target_ip: str, count: int = 3, timeout_sec: int = 5) -> Optional[float]:
      if not target_ip:
          return None
      system = platform.system().lower()
      try:
          ...
      except subprocess.TimeoutExpired:
          return None
      except FileNotFoundError:
          return None
      except Exception as e:
          return None
  \<close>
\<close>

definition ping_test :: "host \<Rightarrow> pyval \<Rightarrow> int \<Rightarrow> int \<Rightarrow> (py_error + real option) \<times> effect list" where
  "ping_test h target_ip count' timeout_sec =
     (if \<not> truthy target_ip then (Inr None, [])
      else
        (case ping_try h (py_lower (platform_system h)) target_ip count' timeout_sec of
           (Inr v, fx) \<Rightarrow> (Inr v, fx)
         | (Inl TimeoutExpired, fx) \<Rightarrow> (Inr None, fx)
         | (Inl FileNotFoundError, fx) \<Rightarrow> (Inr None, fx)
         | (Inl e, fx) \<Rightarrow> (Inr None, fx)))"

text \<open>The dictionary \<^verbatim>\<open>{"server": server, "latency": latency}\<close>.\<close>

record probe_result =
  server :: pydict
  latency :: "real option"

text \<open>
  \<^verbatim>\<open>
  def get_server_latency(server, ping_count, timeout_sec):
      ip_address = server.get("ipv4_addr_in")
      result = {"server": server, "latency": None}
      if not ip_address:
          return result
      latency = ping_test(ip_address, count=ping_count, timeout_sec=timeout_sec // 2)
      result["latency"] = latency
      return result
  \<close>
\<close>

definition get_server_latency :: "host \<Rightarrow> pydict \<Rightarrow> int \<Rightarrow> int \<Rightarrow> (py_error + probe_result) \<times> effect list" where
  "get_server_latency h srv ping_count timeout_sec =
     (let ip_address = dict_get srv ''ipv4_addr_in'';
          result = \<lparr>server = srv, latency = None\<rparr>
      in if \<not> truthy ip_address then (Inr result, [])
         else (case ping_test h ip_address ping_count (timeout_sec div 2) of
                 (Inl e, fx) \<Rightarrow> (Inl e, fx)
               | (Inr l, fx) \<Rightarrow> (Inr (result\<lparr>latency := l\<rparr>), fx)))"

section \<open>Ordering the results\<close>

text \<open>
  The sort key \<^verbatim>\<open>x.get("latency", float('inf')) if x.get("latency") is not None else float('inf')\<close>
  is a float: a latency, or \<^verbatim>\<open>inf\<close>, which is above every latency and equal to itself.
\<close>

datatype sort_key = Finite real | Infinity

fun key_le :: "sort_key \<Rightarrow> sort_key \<Rightarrow> bool" where
  "key_le (Finite a) (Finite b) = (a \<le> b)"
| "key_le (Finite a) Infinity = True"
| "key_le Infinity (Finite b) = False"
| "key_le Infinity Infinity = True"

definition latency_key :: "probe_result \<Rightarrow> sort_key" where
  "latency_key x = (case latency x of Some l \<Rightarrow> Finite l | None \<Rightarrow> Infinity)"

text \<open>
  \<^verbatim>\<open>list.sort(key=...)\<close> is stable: elements with equal keys keep their order. Every
  stable sort gives the same list; this one inserts each element before the first element
  with a key that is not smaller.
\<close>

fun insert_by_key :: "('a \<Rightarrow> sort_key) \<Rightarrow> 'a \<Rightarrow> 'a list \<Rightarrow> 'a list" where
  "insert_by_key k x [] = [x]"
| "insert_by_key k x (y # ys) =
     (if key_le (k x) (k y) then x # y # ys else y # insert_by_key k x ys)"

definition list_sort :: "('a \<Rightarrow> sort_key) \<Rightarrow> 'a list \<Rightarrow> 'a list" where
  "list_sort k xs = foldr (insert_by_key k) xs []"

text \<open>
  The end of \<open>test_servers\<close>, from the results taken out of the result queue:
  \<^verbatim>\<open>
  results.sort(key=lambda x: x.get("latency", float('inf')) if x.get("latency") is not None else float('inf'))
  return results
  \<close>
\<close>

definition sort_results :: "probe_result list \<Rightarrow> probe_result list" where
  "sort_results results = list_sort latency_key results"

section \<open>The relay list\<close>

text \<open>
  \<^verbatim>\<open>
  def filter_servers_by_protocol(servers, protocol):
      if not protocol or protocol.lower() == "both":
          return servers
      protocol_filter = protocol.lower()
      filtered_servers = []
      for server in servers:
          endpoint_data = server.get("endpoint_data")
          is_wireguard = isinstance(endpoint_data, dict) and "wireguard" in endpoint_data
          is_openvpn = isinstance(endpoint_data, str) and endpoint_data == "openvpn"
          if protocol_filter == "wireguard":
              if is_wireguard:
                  filtered_servers.append(server)
          elif protocol_filter == "openvpn":
              if is_openvpn:
                  filtered_servers.append(server)
      return filtered_servers
  \<close>
\<close>

definition is_wireguard :: "pyval \<Rightarrow> bool" where
  "is_wireguard endpoint_data =
     (case endpoint_data of VDict d \<Rightarrow> map_of d ''wireguard'' \<noteq> None | _ \<Rightarrow> False)"

definition is_openvpn :: "pyval \<Rightarrow> bool" where
  "is_openvpn endpoint_data =
     (case endpoint_data of VStr s \<Rightarrow> s = ''openvpn'' | _ \<Rightarrow> False)"

definition filter_servers_by_protocol :: "pydict list \<Rightarrow> string option \<Rightarrow> pydict list" where
  "filter_servers_by_protocol servers protocol =
     (case protocol of
        None \<Rightarrow> servers
      | Some p \<Rightarrow>
          if p = [] \<or> py_lower p = ''both'' then servers
          else
            (let protocol_filter = py_lower p
             in filter (\<lambda>srv.
                  (let endpoint_data = dict_get srv ''endpoint_data''
                   in if protocol_filter = ''wireguard'' then is_wireguard endpoint_data
                      else if protocol_filter = ''openvpn'' then is_openvpn endpoint_data
                      else False)) servers))"

text \<open>
  \<^verbatim>\<open>
  def _add_location_info(servers, country_name, country_code, city_name, city_code):
      for server in servers:
          server["country"] = country_name
          server["country_code"] = country_code
          server["city"] = city_name
          server["city_code"] = city_code
      return servers
  \<close>
  Item assignment needs a dictionary (TypeError otherwise).
\<close>

fun add_location_info :: "pyval list \<Rightarrow> pyval \<Rightarrow> pyval \<Rightarrow> pyval \<Rightarrow> pyval \<Rightarrow> py_error + pydict list" where
  "add_location_info [] country_name country_code city_name city_code = Inr []"
| "add_location_info (VDict d # servers) country_name country_code city_name city_code =
     (case add_location_info servers country_name country_code city_name city_code of
        Inl e \<Rightarrow> Inl e
      | Inr rest \<Rightarrow>
          Inr (AList.update ''city_code'' city_code
                (AList.update ''city'' city_name
                  (AList.update ''country_code'' country_code
                    (AList.update ''country'' country_name d))) # rest))"
| "add_location_info (v # servers) country_name country_code city_name city_code = Inl TypeError"

text \<open>
  The loop over the cities of one country and the loop over the countries in
  \<open>get_all_servers\<close>; \<^verbatim>\<open>x.get\<close> on a value that is not a dictionary raises AttributeError.
  \<^verbatim>\<open>
  for country in countries:
      country_name = country.get("name", "Unknown Country")
      country_code = country.get("code", "??")
      for city in extract_cities(country):
          city_name = city.get("name", "Unknown City")
          city_code = city.get("code", "???")
          city_servers = extract_relays(city)
          _add_location_info(city_servers, country_name, country_code, city_name, city_code)
          all_servers.extend(city_servers)
  \<close>
\<close>

fun city_loop :: "pyval \<Rightarrow> pyval \<Rightarrow> pyval list \<Rightarrow> py_error + pydict list" where
  "city_loop country_name country_code [] = Inr []"
| "city_loop country_name country_code (VDict city # cities) =
     (let city_name = dict_get_default city ''name'' (VStr ''Unknown City'');
          city_code = dict_get_default city ''code'' (VStr ''???'');
          city_servers = dict_get_default city ''relays'' (VList [])
      in case py_iter city_servers of
           Inl e \<Rightarrow> Inl e
         | Inr relays \<Rightarrow>
             (case add_location_info relays country_name country_code city_name city_code of
                Inl e \<Rightarrow> Inl e
              | Inr servers \<Rightarrow>
                  (case city_loop country_name country_code cities of
                     Inl e \<Rightarrow> Inl e
                   | Inr rest \<Rightarrow> Inr (servers @ rest))))"
| "city_loop country_name country_code (v # cities) = Inl AttributeError"

fun country_loop :: "pyval list \<Rightarrow> py_error + pydict list" where
  "country_loop [] = Inr []"
| "country_loop (VDict country # countries) =
     (let country_name = dict_get_default country ''name'' (VStr ''Unknown Country'');
          country_code = dict_get_default country ''code'' (VStr ''??'')
      in case py_iter (dict_get_default country ''cities'' (VList [])) of
           Inl e \<Rightarrow> Inl e
         | Inr cities \<Rightarrow>
             (case city_loop country_name country_code cities of
                Inl e \<Rightarrow> Inl e
              | Inr servers \<Rightarrow>
                  (case country_loop countries of
                     Inl e \<Rightarrow> Inl e
                   | Inr rest \<Rightarrow> Inr (servers @ rest))))"
| "country_loop (v # countries) = Inl AttributeError"

text \<open>
  \<^verbatim>\<open>
  def get_all_servers(data, protocol=None):
      if not data:
          return []
      all_servers = []
      countries = extract_countries(data)
      if not countries:
          return []
      ... the loops ...
      return filter_servers_by_protocol(all_servers, protocol)
  \<close>
\<close>

definition get_all_servers :: "pydict option \<Rightarrow> string option \<Rightarrow> py_error + pydict list" where
  "get_all_servers data protocol =
     (case data of
        None \<Rightarrow> Inr []
      | Some d \<Rightarrow>
          if d = [] then Inr []
          else
            (let countries = dict_get_default d ''countries'' (VList [])
             in if \<not> truthy countries then Inr []
                else (case py_iter countries of
                        Inl e \<Rightarrow> Inl e
                      | Inr cs \<Rightarrow>
                          (case country_loop cs of
                             Inl e \<Rightarrow> Inl e
                           | Inr all_servers \<Rightarrow>
                               Inr (filter_servers_by_protocol all_servers protocol)))))"

section \<open>Throughput computation\<close>

text \<open>Python's true division \<^verbatim>\<open>a / b\<close> on floats raises when the divisor is zero.\<close>

definition py_truediv :: "real \<Rightarrow> real \<Rightarrow> py_error + real" where
  "py_truediv a b = (if b = 0 then Inl ZeroDivisionError else Inr (a / b))"

text \<open>
  \<^verbatim>\<open>
  def calculate_mbps(bytes_transferred: int, duration_sec: float) -> float:
      if duration_sec <= 0.01 or bytes_transferred <= 0:
          return 0.0
      return (bytes_transferred * 8) / (duration_sec * 1_000_000)
  \<close>
\<close>

definition calculate_mbps :: "int \<Rightarrow> real \<Rightarrow> py_error + real" where
  "calculate_mbps bytes_transferred duration_sec =
     (if duration_sec \<le> 0.01 \<or> bytes_transferred \<le> 0 then Inr 0.0
      else py_truediv (real_of_int (bytes_transferred * 8)) (duration_sec * 1000000))"

section \<open>Example hosts\<close>

text \<open>A Linux machine on which every command run gives the same outcome \<open>r\<close>.\<close>

definition linux_host :: "(py_error + completed_process) \<Rightarrow> host" where
  "linux_host r = \<lparr>platform_system = ''Linux'', subprocess_run = (\<lambda>cmd t. r), float_ext = (\<lambda>s. None)\<rparr>"

section \<open>Example results\<close>

definition res_a :: probe_result where
  "res_a = \<lparr>server = [(''hostname'', VStr ''a'')], latency = None\<rparr>"

definition res_b :: probe_result where
  "res_b = \<lparr>server = [(''hostname'', VStr ''b'')], latency = Some 30.5\<rparr>"

definition res_c :: probe_result where
  "res_c = \<lparr>server = [(''hostname'', VStr ''c'')], latency = Some 12\<rparr>"

definition res_d :: probe_result where
  "res_d = \<lparr>server = [(''hostname'', VStr ''d'')], latency = None\<rparr>"

section \<open>Example relay data\<close>

definition relay_countries :: "pyval list" where
  "relay_countries =
     [VDict
        [(''name'', VStr ''Sweden''), (''code'', VStr ''se''),
         (''cities'', VList [VDict
            [(''name'', VStr ''Malmo''), (''code'', VStr ''mma''),
             (''relays'', VList
                [VDict [(''hostname'', VStr ''se-mma-wg-001''),
                        (''endpoint_data'', VDict [(''wireguard'', VDict [])])],
                 VDict [(''hostname'', VStr ''se-mma-ovpn-001''),
                        (''endpoint_data'', VStr ''openvpn'')]])]])]]"

definition relay_data :: pydict where
  "relay_data = [(''countries'', VList relay_countries)]"

definition relay_servers :: "pydict list" where
  "relay_servers =
     [[(''hostname'', VStr ''se-mma-wg-001''), (''endpoint_data'', VDict [(''wireguard'', VDict [])]),
       (''country'', VStr ''Sweden''), (''country_code'', VStr ''se''),
       (''city'', VStr ''Malmo''), (''city_code'', VStr ''mma'')],
      [(''hostname'', VStr ''se-mma-ovpn-001''), (''endpoint_data'', VStr ''openvpn''),
       (''country'', VStr ''Sweden''), (''country_code'', VStr ''se''),
       (''city'', VStr ''Malmo''), (''city_code'', VStr ''mma'')]]"

section \<open>Sockets and the clock\<close>

text \<open>
  What the outside world answers during a speed probe, in the order the calls are made:
  the successive values of \<^verbatim>\<open>time.monotonic()\<close>, of \<^verbatim>\<open>stop_event.is_set()\<close>, of
  \<^verbatim>\<open>sock.send(data)\<close> and of \<^verbatim>\<open>sock.recv(n)\<close>. A call that finds its list empty has no
  answer: the scenario ends there and the run is \<open>None\<close>.
\<close>

datatype send_result = Sent nat | SendRaises py_error

datatype recv_result = Received nat | RecvRaises py_error

record net =
  clock :: "real list"
  stop_reads :: "bool list"
  sends :: "send_result list"
  recvs :: "recv_result list"

definition monotonic :: "net \<Rightarrow> (real \<times> net) option" where
  "monotonic w = (case clock w of [] \<Rightarrow> None | t # ts \<Rightarrow> Some (t, w\<lparr>clock := ts\<rparr>))"

text \<open>\<^verbatim>\<open>stop_event and stop_event.is_set()\<close>: without an event nothing is read.\<close>

definition stop_is_set :: "bool \<Rightarrow> net \<Rightarrow> (bool \<times> net) option" where
  "stop_is_set has_event w =
     (if has_event
      then (case stop_reads w of [] \<Rightarrow> None | b # bs \<Rightarrow> Some (b, w\<lparr>stop_reads := bs\<rparr>))
      else Some (False, w))"

text \<open>\<^verbatim>\<open>sock.send(data)\<close> sends at most \<open>len(data)\<close> bytes and returns how many.\<close>

definition sock_send :: "nat \<Rightarrow> net \<Rightarrow> (send_result \<times> net) option" where
  "sock_send n w =
     (case sends w of
        [] \<Rightarrow> None
      | Sent k # rs \<Rightarrow> Some (Sent (min k n), w\<lparr>sends := rs\<rparr>)
      | SendRaises e # rs \<Rightarrow> Some (SendRaises e, w\<lparr>sends := rs\<rparr>))"

text \<open>
  \<^verbatim>\<open>sock.recv(n)\<close> returns at most \<open>n\<close> bytes; no bytes at all means that the peer has
  closed the connection.
\<close>

definition sock_recv :: "nat \<Rightarrow> net \<Rightarrow> (recv_result \<times> net) option" where
  "sock_recv n w =
     (case recvs w of
        [] \<Rightarrow> None
      | Received k # rs \<Rightarrow> Some (Received (min k n), w\<lparr>recvs := rs\<rparr>)
      | RecvRaises e # rs \<Rightarrow> Some (RecvRaises e, w\<lparr>recvs := rs\<rparr>))"

section \<open>Speed probe\<close>

text \<open>
  The receive phase of one round, from \<open>got\<close> bytes on. It ends by leaving the
  \<^verbatim>\<open>while\<close> loop with the bytes of the round, by StopIteration, or by an exception of
  \<^verbatim>\<open>recv\<close> (socket.timeout, or socket.error, also raised for a closed connection).
  \<^verbatim>\<open>
  while bytes_received_this_round < expected_recv_size and time.monotonic() < recv_deadline:
      if stop_event and stop_event.is_set():
          loop_error = "Test stopped by event during recv"
          raise StopIteration()
      remaining_time = recv_deadline - time.monotonic()
      if remaining_time <= 0: break
      sock.settimeout(remaining_time)
      chunk = sock.recv(expected_recv_size - bytes_received_this_round)
      if not chunk:
          raise socket.error("Connection closed by peer during recv")
      received_data += chunk
      bytes_received_this_round += len(chunk)
  \<close>
\<close>

datatype recv_exit = LoopLeft nat | StopRaised | RecvRaised py_error

function recv_loop :: "bool \<Rightarrow> nat \<Rightarrow> real \<Rightarrow> nat \<Rightarrow> net \<Rightarrow> (recv_exit \<times> net) option" where
  "recv_loop has_event expected_recv_size recv_deadline got w =
     (if got < expected_recv_size then
        (case monotonic w of None \<Rightarrow> None | Some (t, w1) \<Rightarrow>
           if t < recv_deadline then
             (case stop_is_set has_event w1 of None \<Rightarrow> None | Some (stopped, w2) \<Rightarrow>
                if stopped then Some (StopRaised, w2)
                else
                  (case monotonic w2 of None \<Rightarrow> None | Some (t2, w3) \<Rightarrow>
                     if recv_deadline - t2 \<le> 0 then Some (LoopLeft got, w3)
                     else
                       (case sock_recv (expected_recv_size - got) w3 of
                          None \<Rightarrow> None
                        | Some (RecvRaises e, w4) \<Rightarrow> Some (RecvRaised e, w4)
                        | Some (Received n, w4) \<Rightarrow>
                            if n = 0 then Some (RecvRaised SocketError, w4)
                            else recv_loop has_event expected_recv_size recv_deadline (got + n) w4)))
           else Some (LoopLeft got, w1))
      else Some (LoopLeft got, w))"
  by pat_completeness auto
termination
  by (relation "measure (\<lambda>(has_event, expected_recv_size, recv_deadline, got, w). expected_recv_size - got)")
     (auto simp: sock_recv_def split: list.splits recv_result.splits)

declare recv_loop.simps [simp del]

text \<open>The counters of a session and the reason why its loop stopped early, if it did.\<close>

datatype loop_error = StoppedByEvent | SentZeroBytes | ErrorDuringSend py_error
  | StoppedDuringRecv | ErrorDuringRecv py_error

record session =
  total_bytes_sent :: nat
  total_bytes_received :: nat
  successful_exchanges :: nat
  rtt_samples :: "real list"
  loop_error :: "loop_error option"

definition round_timeout :: real where
  "round_timeout = 2.0"

text \<open>
  The ping-pong loop of \<open>_execute_socket_ping_pong\<close>:
  \<^verbatim>\<open>
  while time.monotonic() < loop_end_time:
      if stop_event and stop_event.is_set():
          loop_error = "Test stopped by event"
          break
      round_start_time = time.monotonic()
      try:
          sent = sock.send(ping_data)
          if sent == 0:
              loop_error = "Socket connection broken during send (sent 0 bytes)"
              break
          total_bytes_sent += sent
      except (socket.timeout, socket.error, Exception) as e:
          loop_error = f"Error during send: {e}"
          break
      bytes_received_this_round = 0
      received_data = b''
      recv_deadline = time.monotonic() + round_timeout
      try:
          ... the receive phase ...
          total_bytes_received += bytes_received_this_round
          round_end_time = time.monotonic()
          rtt = round_end_time - round_start_time
          rtt_samples.append(rtt)
          if bytes_received_this_round > 0:
              successful_exchanges += 1
      except StopIteration:
          break
      except socket.timeout:
          pass
      except (socket.error, Exception) as e:
          loop_error = f"Error during recv: {e}"
          break
  \<close>
\<close>

function ping_pong_loop :: "bool \<Rightarrow> nat \<Rightarrow> real \<Rightarrow> session \<Rightarrow> net \<Rightarrow> (session \<times> net) option" where
  "ping_pong_loop has_event chunk_size loop_end_time st w =
     (case monotonic w of None \<Rightarrow> None | Some (t, w1) \<Rightarrow>
        if \<not> t < loop_end_time then Some (st, w1)
        else
          (case stop_is_set has_event w1 of None \<Rightarrow> None | Some (stopped, w2) \<Rightarrow>
             if stopped then Some (st\<lparr>loop_error := Some StoppedByEvent\<rparr>, w2)
             else
               (case monotonic w2 of None \<Rightarrow> None | Some (round_start_time, w3) \<Rightarrow>
                  (case sock_send chunk_size w3 of
                     None \<Rightarrow> None
                   | Some (SendRaises e, w4) \<Rightarrow> Some (st\<lparr>loop_error := Some (ErrorDuringSend e)\<rparr>, w4)
                   | Some (Sent sent, w4) \<Rightarrow>
                       if sent = 0 then Some (st\<lparr>loop_error := Some SentZeroBytes\<rparr>, w4)
                       else
                         (let st1 = st\<lparr>total_bytes_sent := total_bytes_sent st + sent\<rparr>
                          in case monotonic w4 of None \<Rightarrow> None | Some (t3, w5) \<Rightarrow>
                               (case recv_loop has_event chunk_size (t3 + round_timeout) 0 w5 of
                                  None \<Rightarrow> None
                                | Some (LoopLeft bytes_received_this_round, w6) \<Rightarrow>
                                    (case monotonic w6 of None \<Rightarrow> None | Some (round_end_time, w7) \<Rightarrow>
                                       ping_pong_loop has_event chunk_size loop_end_time
                                         (st1\<lparr>total_bytes_received :=
                                                 total_bytes_received st1 + bytes_received_this_round,
                                               rtt_samples :=
                                                 rtt_samples st1 @ [round_end_time - round_start_time],
                                               successful_exchanges :=
                                                 (if 0 < bytes_received_this_round
                                                  then successful_exchanges st1 + 1
                                                  else successful_exchanges st1)\<rparr>) w7)
                                | Some (StopRaised, w6) \<Rightarrow>
                                    Some (st1\<lparr>loop_error := Some StoppedDuringRecv\<rparr>, w6)
                                | Some (RecvRaised e, w6) \<Rightarrow>
                                    if e = SocketTimeout
                                    then ping_pong_loop has_event chunk_size loop_end_time st1 w6
                                    else Some (st1\<lparr>loop_error := Some (ErrorDuringRecv e)\<rparr>, w6)))))))"
  by pat_completeness auto
termination
proof -
  have mono: "length (clock w') < length (clock w)" if "monotonic w = Some (t, w')" for w t w'
    using that by (auto simp: monotonic_def split: list.splits)
  have stop: "clock w' = clock w" if "stop_is_set b w = Some (r, w')" for b w r w'
    using that by (auto simp: stop_is_set_def split: list.splits if_splits)
  have send: "clock w' = clock w" if "sock_send n w = Some (r, w')" for n w r w'
    using that by (auto simp: sock_send_def split: list.splits send_result.splits)
  have recv: "clock w' = clock w" if "sock_recv n w = Some (r, w')" for n w r w'
    using that by (auto simp: sock_recv_def split: list.splits recv_result.splits)
  have loop: "recv_loop b n d g w = Some (r, w') \<Longrightarrow> length (clock w') \<le> length (clock w)"
    for b n d g w r w'
  proof (induction b n d g w rule: recv_loop.induct)
    case (1 b n d g w)
    note rl = recv_loop.simps [of b n d g w]
    show ?case
    proof (cases "g < n")
      case False
      with "1.prems" show ?thesis by (simp add: rl)
    next
      case True
      from "1.prems" True obtain t w1 where m1: "monotonic w = Some (t, w1)"
        by (auto simp: rl split: option.splits)
      show ?thesis
      proof (cases "t < d")
        case False
        with "1.prems" True m1 mono [OF m1] show ?thesis by (auto simp: rl)
      next
        case td: True
        from "1.prems" True m1 td obtain s w2 where s2: "stop_is_set b w1 = Some (s, w2)"
          by (auto simp: rl split: option.splits)
        show ?thesis
        proof (cases s)
          case True
          with "1.prems" \<open>g < n\<close> m1 td s2 mono [OF m1] stop [OF s2] show ?thesis
            by (auto simp: rl)
        next
          case ns: False
          from "1.prems" True m1 td s2 ns obtain t2 w3 where m3: "monotonic w2 = Some (t2, w3)"
            by (auto simp: rl split: option.splits)
          show ?thesis
          proof (cases "d - t2 \<le> 0")
            case True
            with "1.prems" \<open>g < n\<close> m1 td s2 ns m3 mono [OF m1] stop [OF s2] mono [OF m3]
            show ?thesis by (auto simp: rl)
          next
            case rem: False
            from "1.prems" True m1 td s2 ns m3 rem obtain rr w4
              where r4: "sock_recv (n - g) w3 = Some (rr, w4)"
              by (auto simp: rl split: option.splits)
            have c4: "length (clock w4) < length (clock w)"
              using mono [OF m1] stop [OF s2] mono [OF m3] recv [OF r4] by simp
            show ?thesis
            proof (cases rr)
              case (RecvRaises e)
              with "1.prems" True m1 td s2 ns m3 rem r4 c4 show ?thesis by (auto simp: rl)
            next
              case (Received k)
              show ?thesis
              proof (cases "k = 0")
                case True
                with "1.prems" \<open>g < n\<close> m1 td s2 ns m3 rem r4 c4 Received show ?thesis
                  by (auto simp: rl)
              next
                case False
                with "1.prems" \<open>g < n\<close> m1 td s2 ns m3 rem r4 Received
                have "recv_loop b n d (g + k) w4 = Some (r, w')" by (simp add: rl)
                from "1.IH" [OF \<open>g < n\<close> m1 refl td s2 refl ns m3 refl rem r4 refl Received False this] c4
                show ?thesis by simp
              qed
            qed
          qed
        qed
      qed
    qed
  qed
  show ?thesis
    by (relation "measure (\<lambda>(has_event, chunk_size, loop_end_time, st, w). length (clock w))")
       (auto dest!: mono stop send recv loop)
qed

declare ping_pong_loop.simps [simp del]

definition DEFAULT_PORTS :: "int list" where
  "DEFAULT_PORTS = [443, 80, 8080, 51820]"



definition DEFAULT_CONN_TIMEOUT :: int where
  "DEFAULT_CONN_TIMEOUT = 5"

definition new_session :: session where
  "new_session = \<lparr>total_bytes_sent = 0, total_bytes_received = 0, successful_exchanges = 0,
     rtt_samples = [], loop_error = None\<rparr>"

text \<open>
  The end of the \<^verbatim>\<open>try\<close> block; an exception in the second line would leave the upload
  speed assigned and the download speed \<open>None\<close>.
  \<^verbatim>\<open>
  upload_mbps = calculate_mbps(total_bytes_sent, loop_elapsed)
  download_mbps = calculate_mbps(total_bytes_received, loop_elapsed)
  \<close>
\<close>

definition aggregate_speeds :: "session \<Rightarrow> real \<Rightarrow> real option \<times> real option" where
  "aggregate_speeds st loop_elapsed =
     (case calculate_mbps (int (total_bytes_sent st)) loop_elapsed of
        Inl e \<Rightarrow> (None, None)
      | Inr upload_mbps \<Rightarrow>
          (case calculate_mbps (int (total_bytes_received st)) loop_elapsed of
             Inl e \<Rightarrow> (None, Some upload_mbps)
           | Inr download_mbps \<Rightarrow> (Some download_mbps, Some upload_mbps)))"

text \<open>
  \<open>_execute_socket_ping_pong\<close>, returning \<open>(download_mbps, upload_mbps)\<close>. \<open>conn\<close> is the
  network: \<open>conn ip port\<close> is \<open>None\<close> when \<^verbatim>\<open>sock.connect((ip, port))\<close> succeeds and the
  exception it raises otherwise.
  \<^verbatim>\<open>
  download_mbps = None
  upload_mbps = None
  sock = None
  rtt_samples = []
  ping_data = os.urandom(chunk_size)
  expected_recv_size = len(ping_data)
  try:
      conn_start_time = time.monotonic()
      sock = socket.socket(socket.AF_INET, socket.SOCK_STREAM)
      sock.settimeout(conn_timeout)
      sock.connect((ip, port))
      conn_elapsed = time.monotonic() - conn_start_time
      round_timeout = 2.0
      sock.settimeout(round_timeout)
      total_bytes_sent = 0
      total_bytes_received = 0
      successful_exchanges = 0
      loop_start_time = time.monotonic()
      loop_end_time = loop_start_time + duration
      loop_error = None
      ... the ping-pong loop ...
      loop_elapsed = time.monotonic() - loop_start_time
      upload_mbps = calculate_mbps(total_bytes_sent, loop_elapsed)
      download_mbps = calculate_mbps(total_bytes_received, loop_elapsed)
  except socket.timeout: ...
  except socket.error as e: ...
  except Exception as e: ...
  finally: ... shutdown and close ...
  return download_mbps, upload_mbps
  \<close>
  \<^verbatim>\<open>os.urandom\<close> raises ValueError for a negative size, outside the \<^verbatim>\<open>try\<close>;
  \<^verbatim>\<open>settimeout\<close> raises ValueError for a negative timeout and \<^verbatim>\<open>connect\<close> raises TypeError
  for an address that is not a string, both inside it.
\<close>

definition execute_socket_ping_pong ::
  "(string \<Rightarrow> int \<Rightarrow> py_error option) \<Rightarrow> pyval \<Rightarrow> int \<Rightarrow> int \<Rightarrow> int \<Rightarrow> int \<Rightarrow> bool \<Rightarrow> net
     \<Rightarrow> ((py_error + real option \<times> real option) \<times> effect list \<times> net) option" where
  "execute_socket_ping_pong conn ip port duration chunk_size conn_timeout has_event w =
     (if chunk_size < 0 then Some (Inl ValueError, [], w)
      else
        (case monotonic w of None \<Rightarrow> None | Some (conn_start_time, w1) \<Rightarrow>
           if conn_timeout < 0 then Some (Inr (None, None), [], w1)
           else
             (case ip of
                VStr a \<Rightarrow>
                  (case conn a port of
                     Some e \<Rightarrow> Some (Inr (None, None), [SocketConnect a port], w1)
                   | None \<Rightarrow>
                       (case monotonic w1 of None \<Rightarrow> None | Some (conn_end_time, w2) \<Rightarrow>
                        case monotonic w2 of None \<Rightarrow> None | Some (loop_start_time, w3) \<Rightarrow>
                        case ping_pong_loop has_event (nat chunk_size)
                               (loop_start_time + real_of_int duration) new_session w3 of
                          None \<Rightarrow> None
                        | Some (st, w4) \<Rightarrow>
                        case monotonic w4 of None \<Rightarrow> None | Some (loop_stop_time, w5) \<Rightarrow>
                          Some (Inr (aggregate_speeds st (loop_stop_time - loop_start_time)),
                                [SocketConnect a port], w5)))
              | _ \<Rightarrow> Some (Inr (None, None), [], w1))))"

text \<open>
  The loop over the ports in \<open>run_socket_ping_pong_test\<close>:
  \<^verbatim>\<open>
  for port in ports:
      if stop_event and stop_event.is_set():
          return None, None
      dl_mbps, ul_mbps = _execute_socket_ping_pong(ip=ip_address, port=port, duration=duration,
          chunk_size=chunk_size, conn_timeout=DEFAULT_CONN_TIMEOUT, stop_event=stop_event)
      if dl_mbps is not None or ul_mbps is not None:
          return dl_mbps, ul_mbps
  return None, None
  \<close>
\<close>

fun port_loop ::
  "(string \<Rightarrow> int \<Rightarrow> py_error option) \<Rightarrow> pyval \<Rightarrow> int \<Rightarrow> int \<Rightarrow> bool \<Rightarrow> int list \<Rightarrow> net
     \<Rightarrow> ((py_error + real option \<times> real option) \<times> effect list \<times> net) option" where
  "port_loop conn ip duration chunk_size has_event [] w = Some (Inr (None, None), [], w)"
| "port_loop conn ip duration chunk_size has_event (port # ports) w =
     (case stop_is_set has_event w of None \<Rightarrow> None | Some (stopped, w1) \<Rightarrow>
        if stopped then Some (Inr (None, None), [], w1)
        else
          (case execute_socket_ping_pong conn ip port duration chunk_size DEFAULT_CONN_TIMEOUT
                  has_event w1 of
             None \<Rightarrow> None
           | Some (Inl e, fx, w2) \<Rightarrow> Some (Inl e, fx, w2)
           | Some (Inr (dl_mbps, ul_mbps), fx, w2) \<Rightarrow>
               if dl_mbps \<noteq> None \<or> ul_mbps \<noteq> None then Some (Inr (dl_mbps, ul_mbps), fx, w2)
               else
                 (case port_loop conn ip duration chunk_size has_event ports w2 of
                    None \<Rightarrow> None
                  | Some (r, fx2, w3) \<Rightarrow> Some (r, fx @ fx2, w3))))"

text \<open>
  \<^verbatim>\<open>
  def run_socket_ping_pong_test(server, duration=DEFAULT_DURATION, chunk_size=DEFAULT_CHUNK_SIZE,
                                ports=DEFAULT_PORTS, stop_event=None):
      ip_address = server.get("ipv4_addr_in")
      hostname = server.get("hostname", "N/A")
      if not ip_address:
          return None, None
      ... the loop over the ports ...
  \<close>
\<close>

definition run_socket_ping_pong_test ::
  "(string \<Rightarrow> int \<Rightarrow> py_error option) \<Rightarrow> pydict \<Rightarrow> int \<Rightarrow> int \<Rightarrow> int list \<Rightarrow> bool \<Rightarrow> net
     \<Rightarrow> ((py_error + real option \<times> real option) \<times> effect list \<times> net) option" where
  "run_socket_ping_pong_test conn srv duration chunk_size ports has_event w =
     (let ip_address = dict_get srv ''ipv4_addr_in''
      in if \<not> truthy ip_address then Some (Inr (None, None), [], w)
         else port_loop conn ip_address duration chunk_size has_event ports w)"

section \<open>Example sessions\<close>

text \<open>
  A peer that answers the first block with 100 bytes and then nothing: the second
  \<^verbatim>\<open>recv\<close> of the round raises socket.timeout when the deadline of the round is reached.
\<close>

definition silent_peer :: net where
  "silent_peer =
     \<lparr>clock = [0.2, 0.2, 0.3, 0.4, 0.4, 1.0, 1.0, 5.2],
      stop_reads = [],
      sends = [Sent 8192],
      recvs = [Received 100, RecvRaises SocketTimeout]\<rparr>"

text \<open>
  The same peer, when the deadline is seen by the test of the \<^verbatim>\<open>while\<close> loop (the clock
  reads 2.4 there) instead of by \<^verbatim>\<open>recv\<close>.
\<close>

definition slow_peer :: net where
  "slow_peer =
     \<lparr>clock = [0.2, 0.2, 0.3, 0.4, 0.4, 2.4, 2.4, 5.2],
      stop_reads = [],
      sends = [Sent 8192],
      recvs = [Received 100]\<rparr>"

text \<open>
  A network on which only port 80 accepts a connection, a run of the wrapper on it (one
  clock reading for the refused port 443, then the session with the silent peer on port
  80), and two relays, one with and one without an address.
\<close>

definition only_port_80 :: "string \<Rightarrow> int \<Rightarrow> py_error option" where
  "only_port_80 a port = (if port = 80 then None else Some SocketError)"

definition two_port_net :: net where
  "two_port_net =
     \<lparr>clock = [0, 0, 0.1, 0.1, 0.2, 0.2, 0.3, 0.4, 0.4, 1.0, 1.0, 5.2, 5.2],
      stop_reads = [],
      sends = [Sent 8192],
      recvs = [Received 100, RecvRaises SocketTimeout]\<rparr>"

definition relay_10 :: pydict where
  "relay_10 = [(''hostname'', VStr ''se-mma-wg-001''), (''ipv4_addr_in'', VStr ''10.0.0.1'')]"

definition relay_unaddressed :: pydict where
  "relay_unaddressed = [(''hostname'', VStr ''se-mma-wg-002''), (''ipv4_addr_in'', VStr [])]"

section \<open>The worker pool of test_servers\<close>

text \<open>
  \<open>test_servers\<close> runs one coordinating thread and up to \<open>max_workers\<close> worker threads on
  shared queues and events. The model is the interleaving of their atomic steps: a state
  of the pool, one function for the next step of a worker, one for the next step of the
  coordinator, and a schedule that lists who moves and what the outside world does.
\<close>

text \<open>
  Where a worker is in its loop:
  \<^verbatim>\<open>
  def worker():
      nonlocal completed
      while not _stop_event.is_set():                               # LoopHead
          if _pause_event.is_set():                                 # PauseCheck
              time.sleep(0.2)
              continue
          try:
              server = server_queue.get(block=True, timeout=0.1)    # Getting
          except Empty:
              if threading.active_count() <= max_workers + 1:
                  break
              else:
                  continue
          if _stop_event.is_set():                                  # Holding server
              server_queue.task_done()
              break
          try:
              result = get_server_latency(server, ping_count, timeout_sec)   # Probing server
              if result:
                  result_queue.put(result)
                  if result_callback: ...
              with lock:                                            # Counting
                  completed += 1
                  if progress_callback: ...
          except Exception as e:
              logger.exception(...)
          finally:
              server_queue.task_done()                              # Finishing
  \<close>
  The callbacks run inside \<^verbatim>\<open>try\<close> blocks that catch every exception and do not touch the
  state of the pool.
\<close>

datatype worker_pc = LoopHead | PauseCheck | Getting | Holding pydict | Probing pydict
  | Counting | Finishing | Exited

text \<open>
  Where the coordinator is:
  \<^verbatim>\<open>
  for i in range(actual_workers):                                   # Starting i
      thread = threading.Thread(target=worker, ...); thread.start(); threads.append(thread)
  while not _stop_event.is_set():                                   # WaitLoop
      if server_queue.unfinished_tasks == 0:                        # CheckUnfinished
           break
      if _pause_event.is_set(): ... sleep while paused ...
      else: time.sleep(0.2)
  if _stop_event.is_set():                                          # AfterLoop
      while not server_queue.empty():                               # Draining
          try:
              server_queue.get(block=False)                         # DrainGet
              server_queue.task_done()
          except Queue.Empty:
              break
  while not result_queue.empty():                                   # Collecting
      try:
          results.append(result_queue.get(block=False))
      except Queue.Empty:
          break
  results.sort(key=...)
  return results                                                    # Returned results
  \<close>
  \<^verbatim>\<open>Queue.Empty\<close> is not an attribute of the class \<^verbatim>\<open>Queue\<close>: when \<^verbatim>\<open>get\<close> raises
  \<^verbatim>\<open>Empty\<close>, evaluating the \<^verbatim>\<open>except\<close> clause raises AttributeError, which leaves
  \<open>test_servers\<close>.
\<close>

datatype main_pc = Starting nat | WaitLoop | CheckUnfinished | AfterLoop | Draining | DrainGet
  | Collecting | Returned "probe_result list" | Raised py_error

text \<open>
  The shared state. \<open>skipped\<close> and \<open>failed\<close> are not variables of the program: they record
  the targets taken from the queue and dropped because of the stop event, and the targets
  whose probe raised.
\<close>

record pool =
  server_queue :: "pydict list"
  unfinished_tasks :: nat
  result_queue :: "probe_result list"
  results :: "probe_result list"
  completed :: nat
  threads :: "worker_pc list"
  coordinator :: main_pc
  stop_event :: bool
  pause_event :: bool
  skipped :: "pydict list"
  failed :: "pydict list"

text \<open>The arguments \<open>servers\<close>, \<open>max_workers\<close>, \<open>ping_count\<close> and \<open>timeout_sec\<close> of \<open>test_servers\<close>.\<close>

record test_args =
  arg_servers :: "pydict list"
  arg_max_workers :: int
  arg_ping_count :: int
  arg_timeout_sec :: int

text \<open>
  \<^verbatim>\<open>server_queue.task_done()\<close> raises ValueError when there is no unfinished task.
\<close>

definition task_done :: "pool \<Rightarrow> pool option" where
  "task_done p =
     (if unfinished_tasks p = 0 then None
      else Some (p\<lparr>unfinished_tasks := unfinished_tasks p - 1\<rparr>))"

text \<open>
  \<^verbatim>\<open>threading.active_count()\<close>: the workers that are running, the thread that called
  \<open>test_servers\<close>, and \<open>others\<close>, the other live threads of the process.
\<close>

definition active_count :: "pool \<Rightarrow> nat \<Rightarrow> nat" where
  "active_count p others = length (filter (\<lambda>pc. pc \<noteq> Exited) (threads p)) + 1 + others"

text \<open>
  The next step of worker \<open>i\<close>. \<open>others\<close> is the number of other live threads and \<open>h\<close> the
  host at the time of the step. A worker that has exited has no step.
\<close>

definition worker_step :: "test_args \<Rightarrow> nat \<Rightarrow> nat \<Rightarrow> host \<Rightarrow> pool \<Rightarrow> pool option" where
  "worker_step args i others h p =
     (if length (threads p) \<le> i then None
      else
        (case threads p ! i of
           LoopHead \<Rightarrow>
             Some (p\<lparr>threads := (threads p)[i := (if stop_event p then Exited else PauseCheck)]\<rparr>)
         | PauseCheck \<Rightarrow>
             Some (p\<lparr>threads := (threads p)[i := (if pause_event p then LoopHead else Getting)]\<rparr>)
         | Getting \<Rightarrow>
             (case server_queue p of
                srv # rest \<Rightarrow>
                  Some (p\<lparr>server_queue := rest, threads := (threads p)[i := Holding srv]\<rparr>)
              | [] \<Rightarrow>
                  if int (active_count p others) \<le> arg_max_workers args + 1
                  then Some (p\<lparr>threads := (threads p)[i := Exited]\<rparr>)
                  else Some (p\<lparr>threads := (threads p)[i := LoopHead]\<rparr>))
         | Holding srv \<Rightarrow>
             if stop_event p
             then (case task_done p of
                     None \<Rightarrow> Some (p\<lparr>threads := (threads p)[i := Exited]\<rparr>)
                   | Some p' \<Rightarrow>
                       Some (p'\<lparr>threads := (threads p)[i := Exited], skipped := skipped p @ [srv]\<rparr>))
             else Some (p\<lparr>threads := (threads p)[i := Probing srv]\<rparr>)
         | Probing srv \<Rightarrow>
             (case fst (get_server_latency h srv (arg_ping_count args) (arg_timeout_sec args)) of
                Inr result \<Rightarrow>
                  Some (p\<lparr>result_queue := result_queue p @ [result],
                          threads := (threads p)[i := Counting]\<rparr>)
              | Inl e \<Rightarrow>
                  Some (p\<lparr>threads := (threads p)[i := Finishing], failed := failed p @ [srv]\<rparr>))
         | Counting \<Rightarrow>
             Some (p\<lparr>completed := completed p + 1, threads := (threads p)[i := Finishing]\<rparr>)
         | Finishing \<Rightarrow>
             (case task_done p of
                None \<Rightarrow> Some (p\<lparr>threads := (threads p)[i := Exited]\<rparr>)
              | Some p' \<Rightarrow> Some (p'\<lparr>threads := (threads p)[i := LoopHead]\<rparr>))
         | Exited \<Rightarrow> None))"

text \<open>
  The next step of the coordinator; \<open>actual_workers = min(max_workers, total)\<close>. After
  \<^verbatim>\<open>return\<close> or an exception it has no step.
\<close>

definition main_step :: "test_args \<Rightarrow> pool \<Rightarrow> pool option" where
  "main_step args p =
     (case coordinator p of
        Starting i \<Rightarrow>
          if int i < min (arg_max_workers args) (int (length (arg_servers args)))
          then Some (p\<lparr>threads := threads p @ [LoopHead], coordinator := Starting (i + 1)\<rparr>)
          else Some (p\<lparr>coordinator := WaitLoop\<rparr>)
      | WaitLoop \<Rightarrow>
          Some (p\<lparr>coordinator := (if stop_event p then AfterLoop else CheckUnfinished)\<rparr>)
      | CheckUnfinished \<Rightarrow>
          Some (p\<lparr>coordinator := (if unfinished_tasks p = 0 then AfterLoop else WaitLoop)\<rparr>)
      | AfterLoop \<Rightarrow>
          Some (p\<lparr>coordinator := (if stop_event p then Draining else Collecting)\<rparr>)
      | Draining \<Rightarrow>
          Some (p\<lparr>coordinator := (if server_queue p = [] then Collecting else DrainGet)\<rparr>)
      | DrainGet \<Rightarrow>
          (case server_queue p of
             [] \<Rightarrow> Some (p\<lparr>coordinator := Raised AttributeError\<rparr>)
           | srv # rest \<Rightarrow>
               (case task_done (p\<lparr>server_queue := rest\<rparr>) of
                  None \<Rightarrow> Some (p\<lparr>server_queue := rest, coordinator := Raised ValueError\<rparr>)
                | Some p' \<Rightarrow> Some (p'\<lparr>coordinator := Draining, skipped := skipped p @ [srv]\<rparr>)))
      | Collecting \<Rightarrow>
          (case result_queue p of
             [] \<Rightarrow> Some (p\<lparr>coordinator := Returned (sort_results (results p))\<rparr>)
           | r # rest \<Rightarrow> Some (p\<lparr>result_queue := rest, results := results p @ [r]\<rparr>))
      | Returned rs \<Rightarrow> None
      | Raised e \<Rightarrow> None)"

text \<open>
  The state after the set-up of \<open>test_servers\<close>, for the values the two events have at the
  call:
  \<^verbatim>\<open>
  results = []
  total = len(servers)
  if total == 0:
      return results
  completed = 0
  server_queue = Queue()
  for server in servers:
      server_queue.put(server)
  result_queue = Queue()
  \<close>
\<close>

definition initial_pool :: "test_args \<Rightarrow> bool \<Rightarrow> bool \<Rightarrow> pool" where
  "initial_pool args stop pause =
     \<lparr>server_queue = arg_servers args,
      unfinished_tasks = length (arg_servers args),
      result_queue = [],
      results = [],
      completed = 0,
      threads = [],
      coordinator = (if arg_servers args = [] then Returned [] else Starting 0),
      stop_event = stop,
      pause_event = pause,
      skipped = [],
      failed = []\<rparr>"

text \<open>
  One entry of a schedule: a worker moves, the coordinator moves, or the caller sets the
  stop event or changes the pause event. The stop event is never cleared during a run.
\<close>

datatype action = Worker nat nat host | Coordinator | SetStop | SetPause bool

fun apply_action :: "test_args \<Rightarrow> action \<Rightarrow> pool \<Rightarrow> pool option" where
  "apply_action args (Worker i others h) p = worker_step args i others h p"
| "apply_action args Coordinator p = main_step args p"
| "apply_action args SetStop p = Some (p\<lparr>stop_event := True\<rparr>)"
| "apply_action args (SetPause b) p = Some (p\<lparr>pause_event := b\<rparr>)"

fun run_schedule :: "test_args \<Rightarrow> action list \<Rightarrow> pool \<Rightarrow> pool option" where
  "run_schedule args [] p = Some p"
| "run_schedule args (a # as) p =
     (case apply_action args a p of None \<Rightarrow> None | Some p' \<Rightarrow> run_schedule args as p')"

text \<open>The targets that workers hold: taken from the queue, result not yet published.\<close>

fun held_by :: "worker_pc \<Rightarrow> pydict list" where
  "held_by (Holding srv) = [srv]"
| "held_by (Probing srv) = [srv]"
| "held_by pc = []"

definition in_flight :: "pool \<Rightarrow> pydict list" where
  "in_flight p = concat (map held_by (threads p))"

text \<open>The workers that owe a \<^verbatim>\<open>task_done\<close>.\<close>

fun owes_task_done :: "worker_pc \<Rightarrow> bool" where
  "owes_task_done (Holding srv) = True"
| "owes_task_done (Probing srv) = True"
| "owes_task_done Counting = True"
| "owes_task_done Finishing = True"
| "owes_task_done pc = False"

text \<open>
  What holds in every state of a run: each submitted target is in exactly one place; the
  unfinished tasks are the queued targets and the workers that owe a \<^verbatim>\<open>task_done\<close>; no
  probe raises; without a stop nothing is skipped and the coordinator has left its wait
  loop only with no unfinished task; the queue is empty once the coordinator collects.
\<close>

definition pool_inv :: "test_args \<Rightarrow> pool \<Rightarrow> bool" where
  "pool_inv args p \<longleftrightarrow>
     mset (server_queue p) + mset (in_flight p) + mset (map server (result_queue p))
       + mset (map server (results p)) + mset (skipped p) + mset (failed p) = mset (arg_servers args)
     \<and> unfinished_tasks p = length (server_queue p) + length (filter owes_task_done (threads p))
     \<and> failed p = []
     \<and> (\<not> stop_event p \<longrightarrow> skipped p = [] \<and> coordinator p \<noteq> Draining \<and> coordinator p \<noteq> DrainGet
           \<and> (\<forall>e. coordinator p \<noteq> Raised e))
     \<and> (\<not> stop_event p \<and> (coordinator p = AfterLoop \<or> coordinator p = Collecting
              \<or> (\<exists>rs. coordinator p = Returned rs)) \<longrightarrow> unfinished_tasks p = 0)
     \<and> (coordinator p = Collecting \<or> (\<exists>rs. coordinator p = Returned rs) \<longrightarrow> server_queue p = [])
     \<and> (\<forall>rs. coordinator p = Returned rs \<longrightarrow> rs = sort_results (results p))
     \<and> (\<forall>rs. \<not> stop_event p \<and> coordinator p = Returned rs \<longrightarrow> result_queue p = [])"

section \<open>Example runs of the pool\<close>

text \<open>
  One relay, one worker, and a host on which ping times out. \<open>full_schedule\<close> lets the
  worker probe the relay and the coordinator collect; in \<open>stopped_schedule\<close> the caller
  sets the stop event while the worker is probing; after \<open>drained_schedule\<close> the worker
  is about to find the queue empty.
\<close>

definition one_relay_args :: test_args where
  "one_relay_args = \<lparr>arg_servers = [relay_10], arg_max_workers = 1, arg_ping_count = 3, arg_timeout_sec = 10\<rparr>"

definition timeout_host :: host where
  "timeout_host = linux_host (Inl TimeoutExpired)"

definition relay_10_result :: probe_result where
  "relay_10_result = \<lparr>server = relay_10, latency = None\<rparr>"

definition full_schedule :: "action list" where
  "full_schedule = Coordinator # replicate 7 (Worker 0 0 timeout_host) @ replicate 6 Coordinator"

definition returned_pool :: pool where
  "returned_pool =
     \<lparr>server_queue = [], unfinished_tasks = 0, result_queue = [], results = [relay_10_result],
      completed = 1, threads = [LoopHead], coordinator = Returned [relay_10_result],
      stop_event = False, pause_event = False, skipped = [], failed = []\<rparr>"

definition stopped_schedule :: "action list" where
  "stopped_schedule =
     Coordinator # replicate 4 (Worker 0 0 timeout_host) @ SetStop # replicate 5 Coordinator"

definition stopped_pool :: pool where
  "stopped_pool =
     \<lparr>server_queue = [], unfinished_tasks = 1, result_queue = [], results = [],
      completed = 0, threads = [Probing relay_10], coordinator = Returned [],
      stop_event = True, pause_event = False, skipped = [], failed = []\<rparr>"

definition drained_schedule :: "action list" where
  "drained_schedule = Coordinator # replicate 9 (Worker 0 0 timeout_host)"

definition drained_pool :: pool where
  "drained_pool =
     \<lparr>server_queue = [], unfinished_tasks = 0, result_queue = [relay_10_result], results = [],
      completed = 1, threads = [Getting], coordinator = Starting 1,
      stop_event = False, pause_event = False, skipped = [], failed = []\<rparr>"

text \<open>
  The pool between two targets when one worker does all the probing: worker 0 is at the
  head of its loop, no event is set, the coordinator waits, and nothing is in flight.
\<close>

definition quiet :: "pool \<Rightarrow> bool" where
  "quiet p \<longleftrightarrow> threads p \<noteq> [] \<and> threads p ! 0 = LoopHead \<and> \<not> stop_event p \<and> \<not> pause_event p
     \<and> coordinator p = WaitLoop \<and> unfinished_tasks p = length (server_queue p)"

section \<open>Properties\<close>



subsection \<open>Parsing\<close>

lemma takeWhile_run: "list_all P a \<Longrightarrow> \<not> P c \<Longrightarrow> takeWhile P (a @ c # t) = a"
  by (induction a) auto

lemma dropWhile_run: "list_all P a \<Longrightarrow> \<not> P c \<Longrightarrow> dropWhile P (a @ c # t) = c # t"
  by (induction a) auto

lemma plus_class_run:
  "a \<noteq> [] \<Longrightarrow> list_all P a \<Longrightarrow> \<not> P c \<Longrightarrow> plus_class P (a @ c # t) = Some (a, c # t)"
  by (simp add: plus_class_def takeWhile_run dropWhile_run)

lemma lit_append: "lit p (p @ t) = Some t"
  by (simp add: lit_def)

lemma not_class_slash: "\<not> is_digit_or_dot (CHR ''/'')" "\<not> is_digit_or_dot (CHR '' '')"
  "\<not> is_digit (CHR ''m'')"
  by (simp_all add: is_digit_or_dot_def is_digit_def)

lemma rtt_match_shape:
  assumes "a \<noteq> []" "b \<noteq> []" "c \<noteq> []" "d \<noteq> []"
    and "list_all is_digit_or_dot a" "list_all is_digit_or_dot b"
        "list_all is_digit_or_dot c" "list_all is_digit_or_dot d"
  shows "rtt_match (''rtt min/avg/max/mdev = '' @ a @ ''/'' @ b @ ''/'' @ c @ ''/'' @ d @ '' ms'' @ rest)
           = Some b"
proof -
  have l1: "lit ''rtt min/avg/max/mdev = '' (''rtt min/avg/max/mdev = '' @ t) = Some t" for t
    by (rule lit_append)
  have l2: "lit ''/'' (CHR ''/'' # t) = Some t" for t
    using lit_append [of "''/''" t] by simp
  have l3: "lit '' ms'' (CHR '' '' # CHR ''m'' # CHR ''s'' # t) = Some t" for t
    using lit_append [of "'' ms''" t] by simp
  have pa: "plus_class is_digit_or_dot (a @ CHR ''/'' # t) = Some (a, CHR ''/'' # t)" for t
    using assms by (simp add: plus_class_run not_class_slash)
  have pb: "plus_class is_digit_or_dot (b @ CHR ''/'' # t) = Some (b, CHR ''/'' # t)" for t
    using assms by (simp add: plus_class_run not_class_slash)
  have pc: "plus_class is_digit_or_dot (c @ CHR ''/'' # t) = Some (c, CHR ''/'' # t)" for t
    using assms by (simp add: plus_class_run not_class_slash)
  have pd: "plus_class is_digit_or_dot (d @ CHR '' '' # t) = Some (d, CHR '' '' # t)" for t
    using assms by (simp add: plus_class_run not_class_slash)
  show ?thesis
    unfolding rtt_match_def
    by (simp only: l1 Option.bind.simps) (simp add: pa pb pc pd l2 l3)
qed

lemma re_search_skip:
  "(\<forall>k<length pre. m (drop k (pre @ s)) = None) \<Longrightarrow> m s = Some g \<Longrightarrow> re_search m (pre @ s) = Some g"
proof (induction pre)
  case Nil
  then show ?case by (cases s) auto
next
  case (Cons x pre)
  have "m (x # pre @ s) = None" using Cons.prems(1) [rule_format, of 0] by simp
  moreover have "\<forall>k<length pre. m (drop k (pre @ s)) = None"
  proof (intro allI impI)
    fix k assume "k < length pre"
    then have "Suc k < length (x # pre)" by simp
    from Cons.prems(1) [rule_format, OF this] show "m (drop k (pre @ s)) = None" by simp
  qed
  ultimately show ?case using Cons by simp
qed

lemma average_match_shape:
  assumes "n \<noteq> []" "list_all is_digit n"
  shows "average_match (''Average = '' @ n @ ''ms'' @ rest) = Some n"
proof -
  have l1: "lit ''Average = '' (''Average = '' @ t) = Some t" for t
    by (rule lit_append)
  have l2: "lit ''ms'' (CHR ''m'' # CHR ''s'' # t) = Some t" for t
    using lit_append [of "''ms''" t] by simp
  have pn: "plus_class is_digit (n @ CHR ''m'' # t) = Some (n, CHR ''m'' # t)" for t
    using assms by (simp add: plus_class_run not_class_slash)
  show ?thesis
    unfolding average_match_def
    by (simp only: l1 Option.bind.simps) (simp add: pn l2)
qed

lemma float_of_digits:
  "n \<noteq> [] \<Longrightarrow> list_all is_digit n \<Longrightarrow> float_of_decimal n = Some (real (digits_val n))"
proof -
  assume n: "n \<noteq> []" and d: "list_all is_digit n"
  from d have tw: "takeWhile is_digit n = n" and dw: "dropWhile is_digit n = []"
    by (simp_all add: list_all_iff)
  show ?thesis unfolding float_of_decimal_def tw dw using n by simp
qed

lemma py_float_digits:
  "n \<noteq> [] \<Longrightarrow> list_all is_digit n \<Longrightarrow> py_float ext n = Inr (real (digits_val n))"
proof -
  assume n: "n \<noteq> []" and d: "list_all is_digit n"
  from d have "list_all is_digit_or_dot n"
    by (simp add: list_all_iff is_digit_or_dot_def)
  with n d show ?thesis by (simp add: py_float_def float_of_digits)
qed


lemmas parse_eval = parse_unix_ping_def parse_windows_ping_def rtt_match_def average_match_def
  lit_def plus_class_def is_digit_or_dot_def is_digit_def py_float_def float_of_decimal_def
  digits_val_def digit_val_def

text \<open>
  C6: \<open>parse_windows_ping\<close> finds the first place where \<^verbatim>\<open>Average = \<close>, a run of
  digits \<open>n\<close> and \<^verbatim>\<open>ms\<close> follow one another, and returns \<open>n\<close> as a float; without such a
  place it returns \<open>None\<close>; on \<^verbatim>\<open>Average = 15ms\<close> it returns 15.0.
\<close>

theorem parse_windows_ping_spec:
  "(n \<noteq> [] \<and> list_all is_digit n
      \<and> (\<forall>k<length pre. average_match (drop k (pre @ ''Average = '' @ n @ ''ms'' @ post)) = None)
     \<longrightarrow> parse_windows_ping ext (pre @ ''Average = '' @ n @ ''ms'' @ post)
           = Inr (Some (real (digits_val n))))
   \<and> (re_search average_match output = None \<longrightarrow> parse_windows_ping ext output = Inr None)
   \<and> parse_windows_ping ext ''Average = 15ms'' = Inr (Some 15.0)"
proof (intro conjI impI)
  assume h: "n \<noteq> [] \<and> list_all is_digit n
      \<and> (\<forall>k<length pre. average_match (drop k (pre @ ''Average = '' @ n @ ''ms'' @ post)) = None)"
  then have m: "average_match (''Average = '' @ n @ ''ms'' @ post) = Some n"
    by (intro average_match_shape) simp_all
  from h have "re_search average_match (pre @ ''Average = '' @ n @ ''ms'' @ post) = Some n"
    by (intro re_search_skip m) simp
  with h show "parse_windows_ping ext (pre @ ''Average = '' @ n @ ''ms'' @ post)
           = Inr (Some (real (digits_val n)))"
    by (simp add: parse_windows_ping_def py_float_digits)
next
  assume "re_search average_match output = None"
  then show "parse_windows_ping ext output = Inr None"
    by (simp add: parse_windows_ping_def)
next
  show "parse_windows_ping ext ''Average = 15ms'' = Inr (Some 15.0)"
    by (simp add: parse_eval)
qed

theorem parse_windows_ping_spec_witness:
  "parse_windows_ping (\<lambda>s. None) ''x Average = 27ms y'' = Inr (Some 27)
   \<and> re_search average_match ''Average = 15 ms'' = None
   \<and> parse_windows_ping (\<lambda>s. None) ''Average = 15 ms'' = Inr None"
proof -
  have h1: "''27'' \<noteq> [] \<and> list_all is_digit ''27''
      \<and> (\<forall>k<length ''x ''. average_match (drop k (''x '' @ ''Average = '' @ ''27'' @ ''ms'' @ '' y'')) = None)"
    by (simp add: parse_eval less_Suc_eq)
  have h2: "re_search average_match ''Average = 15 ms'' = None"
    by (simp add: parse_eval)
  have v: "real (digits_val ''27'') = 27" by (simp add: parse_eval)
  from parse_windows_ping_spec [of "''27''" "''x ''" "'' y''" "\<lambda>s. None" "''Average = 15 ms''"] h1 h2 v
  show ?thesis by simp
qed

lemma avg_scan_hit:
  "sublist ''avg'' line \<Longrightarrow> sublist ''='' line \<Longrightarrow> py_split (CHR ''='') line = f # g # qs \<Longrightarrow>
   py_split (CHR ''/'') (py_strip g) = p0 # p1 # ps \<Longrightarrow> py_float ext p1 = Inr v \<Longrightarrow>
   avg_scan ext (line # lines) = Some v"
  by simp

lemma avg_scan_skip:
  "\<not> (sublist ''avg'' line \<and> sublist ''='' line) \<Longrightarrow> avg_scan ext (line # lines) = avg_scan ext lines"
  by auto

text \<open>
  C7: \<open>parse_unix_ping\<close> returns the second number \<open>b\<close> of the first place where
  \<^verbatim>\<open>rtt min/avg/max/mdev = a/b/c/d ms\<close> occurs; when the pattern occurs nowhere it scans
  the lines, skips a line without \<^verbatim>\<open>avg\<close> or without \<^verbatim>\<open>=\<close>, and from a line with
  both returns the second of the tokens between slashes after the first \<^verbatim>\<open>=\<close>; on
  \<^verbatim>\<open>rtt min/avg/max/mdev = 10.0/23.4/40.0/5.0 ms\<close> it returns 23.4.
\<close>

theorem parse_unix_ping_spec:
  "(a \<noteq> [] \<and> b \<noteq> [] \<and> c \<noteq> [] \<and> d \<noteq> []
      \<and> list_all is_digit_or_dot a \<and> list_all is_digit_or_dot b
      \<and> list_all is_digit_or_dot c \<and> list_all is_digit_or_dot d
      \<and> output = pre @ ''rtt min/avg/max/mdev = '' @ a @ ''/'' @ b @ ''/'' @ c @ ''/'' @ d @ '' ms'' @ post
      \<and> (\<forall>k<length pre. rtt_match (drop k output) = None)
      \<and> float_of_decimal b = Some v
     \<longrightarrow> parse_unix_ping ext output = Inr (Some v))
   \<and> (re_search rtt_match out2 = None
     \<longrightarrow> parse_unix_ping ext out2 = Inr (avg_scan ext (py_splitlines out2)))
   \<and> (sublist ''avg'' line \<and> sublist ''='' line
      \<and> py_split (CHR ''='') line = f # g # qs
      \<and> py_split (CHR ''/'') (py_strip g) = p0 # p1 # ps
      \<and> py_float ext p1 = Inr w
     \<longrightarrow> avg_scan ext (line # lines) = Some w)
   \<and> (\<not> (sublist ''avg'' line2 \<and> sublist ''='' line2)
     \<longrightarrow> avg_scan ext (line2 # lines2) = avg_scan ext lines2)
   \<and> parse_unix_ping ext ''rtt min/avg/max/mdev = 10.0/23.4/40.0/5.0 ms'' = Inr (Some 23.4)"
proof (intro conjI impI)
  assume h: "a \<noteq> [] \<and> b \<noteq> [] \<and> c \<noteq> [] \<and> d \<noteq> []
      \<and> list_all is_digit_or_dot a \<and> list_all is_digit_or_dot b
      \<and> list_all is_digit_or_dot c \<and> list_all is_digit_or_dot d
      \<and> output = pre @ ''rtt min/avg/max/mdev = '' @ a @ ''/'' @ b @ ''/'' @ c @ ''/'' @ d @ '' ms'' @ post
      \<and> (\<forall>k<length pre. rtt_match (drop k output) = None)
      \<and> float_of_decimal b = Some v"
  let ?s = "''rtt min/avg/max/mdev = '' @ a @ ''/'' @ b @ ''/'' @ c @ ''/'' @ d @ '' ms'' @ post"
  from h have m: "rtt_match ?s = Some b"
    by (intro rtt_match_shape) simp_all
  from h have out: "output = pre @ ?s" by simp
  from h have "\<forall>k<length pre. rtt_match (drop k (pre @ ?s)) = None"
    unfolding out by blast
  then have "re_search rtt_match (pre @ ?s) = Some b"
    by (rule re_search_skip) (rule m)
  then have "re_search rtt_match output = Some b"
    unfolding out .
  moreover from h have "py_float ext b = Inr v"
    by (simp add: py_float_def)
  ultimately show "parse_unix_ping ext output = Inr (Some v)"
    by (simp add: parse_unix_ping_def)
next
  assume "re_search rtt_match out2 = None"
  then show "parse_unix_ping ext out2 = Inr (avg_scan ext (py_splitlines out2))"
    by (simp add: parse_unix_ping_def)
next
  assume "sublist ''avg'' line \<and> sublist ''='' line
      \<and> py_split (CHR ''='') line = f # g # qs
      \<and> py_split (CHR ''/'') (py_strip g) = p0 # p1 # ps
      \<and> py_float ext p1 = Inr w"
  then show "avg_scan ext (line # lines) = Some w"
    by (intro avg_scan_hit [of line f g qs p0 p1 ps ext w]) simp_all
next
  assume "\<not> (sublist ''avg'' line2 \<and> sublist ''='' line2)"
  then show "avg_scan ext (line2 # lines2) = avg_scan ext lines2"
    by (rule avg_scan_skip)
next
  show "parse_unix_ping ext ''rtt min/avg/max/mdev = 10.0/23.4/40.0/5.0 ms'' = Inr (Some 23.4)"
    by (simp add: parse_eval)
qed

theorem parse_unix_ping_spec_witness:
  "parse_unix_ping (\<lambda>s. None) ''x rtt min/avg/max/mdev = 1.5/2.5/3.5/0.5 ms'' = Inr (Some 2.5)
   \<and> parse_unix_ping (\<lambda>s. None) ''min/avg/max = 1.0/2.5/4.0 ms''
        = Inr (avg_scan (\<lambda>s. None) (py_splitlines ''min/avg/max = 1.0/2.5/4.0 ms''))
   \<and> avg_scan (\<lambda>s. None) [''min/avg/max = 1.0/2.5/4.0 ms''] = Some 2.5
   \<and> avg_scan (\<lambda>s. None) [''PING'', ''min/avg/max = 1.0/2.5/4.0 ms'']
        = avg_scan (\<lambda>s. None) [''min/avg/max = 1.0/2.5/4.0 ms'']"
proof -
  let ?out = "''x rtt min/avg/max/mdev = 1.5/2.5/3.5/0.5 ms''"
  let ?line = "''min/avg/max = 1.0/2.5/4.0 ms''"
  have h1: "''1.5'' \<noteq> [] \<and> ''2.5'' \<noteq> [] \<and> ''3.5'' \<noteq> [] \<and> ''0.5'' \<noteq> []
      \<and> list_all is_digit_or_dot ''1.5'' \<and> list_all is_digit_or_dot ''2.5''
      \<and> list_all is_digit_or_dot ''3.5'' \<and> list_all is_digit_or_dot ''0.5''
      \<and> ?out = ''x '' @ ''rtt min/avg/max/mdev = '' @ ''1.5'' @ ''/'' @ ''2.5'' @ ''/'' @ ''3.5'' @ ''/'' @ ''0.5'' @ '' ms'' @ []
      \<and> (\<forall>k<length ''x ''. rtt_match (drop k ?out) = None)
      \<and> float_of_decimal ''2.5'' = Some 2.5"
    by (simp add: parse_eval less_Suc_eq)
  have h2: "re_search rtt_match ?line = None"
    by (simp add: parse_eval)
  have s1: "sublist ''avg'' ?line" by code_simp
  have s2: "sublist ''='' ?line" by code_simp
  have s3: "py_split (CHR ''='') ?line = ''min/avg/max '' # '' 1.0/2.5/4.0 ms'' # []"
    by simp
  have s4: "py_split (CHR ''/'') (py_strip '' 1.0/2.5/4.0 ms'') = ''1.0'' # ''2.5'' # [''4.0 ms'']"
    by (simp add: py_strip_def is_space_def)
  have s5: "py_float (\<lambda>s. None) ''2.5'' = Inr 2.5"
    by (simp add: parse_eval)
  note h3 = conjI [OF s1 conjI [OF s2 conjI [OF s3 conjI [OF s4 s5]]]]
  have "\<not> sublist ''avg'' ''PING''" by code_simp
  then have h4: "\<not> (sublist ''avg'' ''PING'' \<and> sublist ''='' ''PING'')"
    by blast
  note spec = parse_unix_ping_spec [of "''1.5''" "''2.5''" "''3.5''" "''0.5''" ?out "''x ''" "[]" "2.5"
      "\<lambda>s. None" ?line ?line "''min/avg/max ''" "'' 1.0/2.5/4.0 ms''" "[]" "''1.0''" "''2.5''"
      "[''4.0 ms'']" "2.5" "[]" "''PING''" "[?line]"]
  note c1 = spec [THEN conjunct1, THEN mp, OF h1]
  note c2 = spec [THEN conjunct2, THEN conjunct1, THEN mp, OF h2]
  note c3 = spec [THEN conjunct2, THEN conjunct2, THEN conjunct1, THEN mp, OF h3]
  note c4 = spec [THEN conjunct2, THEN conjunct2, THEN conjunct2, THEN conjunct1, THEN mp, OF h4]
  from c1 c2 c3 c4 show ?thesis by (intro conjI)
qed

subsection \<open>Latency probe\<close>

lemma ping_test_returns: "\<exists>v. fst (ping_test h target_ip count' timeout_sec) = Inr v"
  by (auto simp: ping_test_def split: prod.splits sum.splits py_error.splits)

lemma ping_test_failed_run:
  assumes "target_ip = VStr ip" "ip \<noteq> []"
    and "subprocess_run h (ping_command (py_lower (platform_system h)) count' timeout_sec ip) (timeout_sec + 2) = Inl e"
  shows "fst (ping_test h target_ip count' timeout_sec) = Inr None"
  using assms by (auto simp: ping_test_def ping_try_def split: prod.splits sum.splits py_error.splits)

lemma ping_test_nonzero_exit:
  assumes "target_ip = VStr ip" "ip \<noteq> []"
    and "subprocess_run h (ping_command (py_lower (platform_system h)) count' timeout_sec ip) (timeout_sec + 2) = Inr p"
    and "returncode p \<noteq> 0"
  shows "fst (ping_test h target_ip count' timeout_sec) = Inr None"
  using assms by (auto simp: ping_test_def ping_try_def split: prod.splits sum.splits py_error.splits)

lemma ping_test_unparsable:
  assumes "target_ip = VStr ip" "ip \<noteq> []"
    and "subprocess_run h (ping_command (py_lower (platform_system h)) count' timeout_sec ip) (timeout_sec + 2) = Inr p"
    and "returncode p = 0"
    and "\<forall>v. parse_func (py_lower (platform_system h)) (float_ext h) (stdout p) \<noteq> Inr (Some v)"
  shows "fst (ping_test h target_ip count' timeout_sec) = Inr None"
proof -
  from assms have t: "ping_try h (py_lower (platform_system h)) target_ip count' timeout_sec
     = (parse_func (py_lower (platform_system h)) (float_ext h) (stdout p),
        [RunProcess (ping_command (py_lower (platform_system h)) count' timeout_sec ip)])"
    by (simp add: ping_try_def)
  show ?thesis
  proof (cases "parse_func (py_lower (platform_system h)) (float_ext h) (stdout p)")
    case (Inl e)
    with t assms show ?thesis
      by (cases e) (simp_all add: ping_test_def)
  next
    case (Inr r)
    with assms(5) have "r = None" by (cases r) auto
    with Inr t assms show ?thesis by (simp add: ping_test_def)
  qed
qed

lemma ping_test_parsed:
  assumes "target_ip = VStr ip" "ip \<noteq> []"
    and "subprocess_run h (ping_command (py_lower (platform_system h)) count' timeout_sec ip) (timeout_sec + 2) = Inr p"
    and "returncode p = 0"
    and "parse_func (py_lower (platform_system h)) (float_ext h) (stdout p) = Inr (Some v)"
  shows "fst (ping_test h target_ip count' timeout_sec) = Inr (Some v)"
  using assms by (simp add: ping_test_def ping_try_def)

text \<open>
  C5: \<open>ping_test\<close> never raises; it returns \<open>None\<close> when the ping process exits with a
  non-zero code (as it does for a host it cannot resolve), when running the command raises
  (timeout, command not found, anything else), and when the output of a successful run
  does not parse to a number.
\<close>

theorem ping_test_spec:
  "(\<exists>v. fst (ping_test h target_ip count' timeout_sec) = Inr v)
   \<and> (\<not> truthy target_ip \<longrightarrow> ping_test h target_ip count' timeout_sec = (Inr None, []))
   \<and> (ip \<noteq> [] \<and> subprocess_run h (ping_command (py_lower (platform_system h)) count' timeout_sec ip)
          (timeout_sec + 2) = Inr p \<and> returncode p \<noteq> 0
      \<longrightarrow> fst (ping_test h (VStr ip) count' timeout_sec) = Inr None)
   \<and> (ip \<noteq> [] \<and> subprocess_run h (ping_command (py_lower (platform_system h)) count' timeout_sec ip)
          (timeout_sec + 2) = Inl e
      \<longrightarrow> fst (ping_test h (VStr ip) count' timeout_sec) = Inr None)
   \<and> (ip \<noteq> [] \<and> subprocess_run h (ping_command (py_lower (platform_system h)) count' timeout_sec ip)
          (timeout_sec + 2) = Inr p \<and> returncode p = 0
        \<and> (\<forall>v. parse_func (py_lower (platform_system h)) (float_ext h) (stdout p) \<noteq> Inr (Some v))
      \<longrightarrow> fst (ping_test h (VStr ip) count' timeout_sec) = Inr None)"
proof (intro conjI impI)
  show "\<exists>v. fst (ping_test h target_ip count' timeout_sec) = Inr v"
    by (rule ping_test_returns)
next
  assume "\<not> truthy target_ip"
  then show "ping_test h target_ip count' timeout_sec = (Inr None, [])"
    by (simp add: ping_test_def)
next
  assume "ip \<noteq> [] \<and> subprocess_run h (ping_command (py_lower (platform_system h)) count' timeout_sec ip)
          (timeout_sec + 2) = Inr p \<and> returncode p \<noteq> 0"
  then show "fst (ping_test h (VStr ip) count' timeout_sec) = Inr None"
    by (intro ping_test_nonzero_exit [of _ ip h count' timeout_sec p]) simp_all
next
  assume "ip \<noteq> [] \<and> subprocess_run h (ping_command (py_lower (platform_system h)) count' timeout_sec ip)
          (timeout_sec + 2) = Inl e"
  then show "fst (ping_test h (VStr ip) count' timeout_sec) = Inr None"
    by (intro ping_test_failed_run [of _ ip h count' timeout_sec e]) simp_all
next
  assume "ip \<noteq> [] \<and> subprocess_run h (ping_command (py_lower (platform_system h)) count' timeout_sec ip)
          (timeout_sec + 2) = Inr p \<and> returncode p = 0
        \<and> (\<forall>v. parse_func (py_lower (platform_system h)) (float_ext h) (stdout p) \<noteq> Inr (Some v))"
  then show "fst (ping_test h (VStr ip) count' timeout_sec) = Inr None"
    by (intro ping_test_unparsable [of _ ip h count' timeout_sec p]) simp_all
qed

lemma lower_linux: "py_lower ''Linux'' = ''linux''"
  by code_simp

theorem ping_test_spec_witness:
  "fst (ping_test (linux_host (Inr \<lparr>returncode = 2, stdout = [], stderr = ''ping: unknown host''\<rparr>))
         (VStr ''nowhere.invalid'') 3 5) = Inr None
   \<and> fst (ping_test (linux_host (Inl TimeoutExpired)) (VStr ''10.0.0.1'') 3 5) = Inr None
   \<and> fst (ping_test (linux_host (Inl FileNotFoundError)) (VStr ''10.0.0.1'') 3 5) = Inr None
   \<and> fst (ping_test (linux_host (Inr \<lparr>returncode = 0, stdout = ''no statistics'', stderr = []\<rparr>))
         (VStr ''10.0.0.1'') 3 5) = Inr None
   \<and> ping_test (linux_host (Inl TimeoutExpired)) (VStr []) 3 5 = (Inr None, [])"
proof -
  let ?p1 = "\<lparr>returncode = 2, stdout = [], stderr = ''ping: unknown host''\<rparr>"
  let ?p2 = "\<lparr>returncode = 0, stdout = ''no statistics'', stderr = []\<rparr>"
  have h1: "''nowhere.invalid'' \<noteq> [] \<and> subprocess_run (linux_host (Inr ?p1))
       (ping_command (py_lower (platform_system (linux_host (Inr ?p1)))) 3 5 ''nowhere.invalid'') (5 + 2) = Inr ?p1
       \<and> returncode ?p1 \<noteq> 0"
    by (simp add: linux_host_def)
  have h2: "''10.0.0.1'' \<noteq> [] \<and> subprocess_run (linux_host (Inl e))
       (ping_command (py_lower (platform_system (linux_host (Inl e)))) 3 5 ''10.0.0.1'') (5 + 2) = Inl e" for e
    by (simp add: linux_host_def)
  have np: "parse_func ''linux'' (\<lambda>s. None) ''no statistics'' = Inr None"
    by (simp add: parse_func_def parse_eval py_splitlines_def is_linebreak_def sublist_code)
  have h3: "''10.0.0.1'' \<noteq> [] \<and> subprocess_run (linux_host (Inr ?p2))
       (ping_command (py_lower (platform_system (linux_host (Inr ?p2)))) 3 5 ''10.0.0.1'') (5 + 2) = Inr ?p2
       \<and> returncode ?p2 = 0
       \<and> (\<forall>v. parse_func (py_lower (platform_system (linux_host (Inr ?p2)))) (float_ext (linux_host (Inr ?p2)))
               (stdout ?p2) \<noteq> Inr (Some v))"
    by (simp add: linux_host_def lower_linux np)
  have h4: "\<not> truthy (VStr [])" by simp
  note a = ping_test_spec [of "linux_host (Inr ?p1)" _ 3 5 "''nowhere.invalid''" ?p1,
      THEN conjunct2, THEN conjunct2, THEN conjunct1, THEN mp, OF h1]
  note b = ping_test_spec [of "linux_host (Inl TimeoutExpired)" _ 3 5 "''10.0.0.1''" _ TimeoutExpired,
      THEN conjunct2, THEN conjunct2, THEN conjunct2, THEN conjunct1, THEN mp, OF h2]
  note c = ping_test_spec [of "linux_host (Inl FileNotFoundError)" _ 3 5 "''10.0.0.1''" _ FileNotFoundError,
      THEN conjunct2, THEN conjunct2, THEN conjunct2, THEN conjunct1, THEN mp, OF h2]
  note d = ping_test_spec [of "linux_host (Inr ?p2)" _ 3 5 "''10.0.0.1''" ?p2,
      THEN conjunct2, THEN conjunct2, THEN conjunct2, THEN conjunct2, THEN mp, OF h3]
  note e = ping_test_spec [of "linux_host (Inl TimeoutExpired)" "VStr []" 3 5,
      THEN conjunct2, THEN conjunct1, THEN mp, OF h4]
  from a b c d e show ?thesis by (intro conjI)
qed

subsection \<open>Ordering the results\<close>

lemma key_le_total: "key_le a b \<or> key_le b a"
  by (cases a; cases b) auto

lemma key_le_trans: "key_le a b \<Longrightarrow> key_le b c \<Longrightarrow> key_le a c"
  by (cases a; cases b; cases c) auto

lemma set_insert_by_key: "set (insert_by_key k x ys) = insert x (set ys)"
  by (induction ys) auto

lemma mset_insert_by_key: "mset (insert_by_key k x ys) = add_mset x (mset ys)"
  by (induction ys) auto

lemma sorted_insert_by_key:
  "sorted_wrt (\<lambda>x y. key_le (k x) (k y)) ys \<Longrightarrow>
   sorted_wrt (\<lambda>x y. key_le (k x) (k y)) (insert_by_key k x ys)"
proof (induction ys)
  case Nil
  then show ?case by simp
next
  case (Cons y ys)
  show ?case
  proof (cases "key_le (k x) (k y)")
    case True
    with Cons.prems show ?thesis
      by (auto intro: key_le_trans)
  next
    case False
    then have "key_le (k y) (k x)" using key_le_total by blast
    with False Cons show ?thesis
      by (auto simp: set_insert_by_key)
  qed
qed

lemma mset_list_sort: "mset (list_sort k xs) = mset xs"
  by (induction xs) (simp_all add: list_sort_def mset_insert_by_key)

lemma sorted_list_sort: "sorted_wrt (\<lambda>x y. key_le (k x) (k y)) (list_sort k xs)"
proof (induction xs)
  case Nil
  then show ?case by (simp add: list_sort_def)
next
  case (Cons x xs)
  then show ?case
    using sorted_insert_by_key [of k "list_sort k xs" x] by (simp add: list_sort_def)
qed

text \<open>Stability: elements with the same key keep their order.\<close>

lemma filter_insert_by_key_other:
  "k x \<noteq> c \<Longrightarrow> filter (\<lambda>y. k y = c) (insert_by_key k x ys) = filter (\<lambda>y. k y = c) ys"
  by (induction ys) auto

lemma key_le_antisym: "key_le a b \<Longrightarrow> key_le b a \<Longrightarrow> a = b"
  by (cases a; cases b) auto

lemma filter_insert_by_key_same:
  "sorted_wrt (\<lambda>x y. key_le (k x) (k y)) ys \<Longrightarrow>
   filter (\<lambda>y. k y = k x) (insert_by_key k x ys) = x # filter (\<lambda>y. k y = k x) ys"
proof (induction ys)
  case Nil
  then show ?case by simp
next
  case (Cons y ys)
  show ?case
  proof (cases "key_le (k x) (k y)")
    case True
    then show ?thesis by simp
  next
    case False
    then have "k y \<noteq> k x" using key_le_total [of "k x" "k x"] by auto
    with False Cons show ?thesis by simp
  qed
qed

lemma list_sort_stable:
  "filter (\<lambda>y. k y = c) (list_sort k xs) = filter (\<lambda>y. k y = c) xs"
proof (induction xs)
  case Nil
  then show ?case by (simp add: list_sort_def)
next
  case (Cons x xs)
  have s: "list_sort k (x # xs) = insert_by_key k x (list_sort k xs)"
    by (simp add: list_sort_def)
  show ?case
  proof (cases "k x = c")
    case True
    with Cons show ?thesis
      using filter_insert_by_key_same [OF sorted_list_sort, of k x xs] by (simp add: s)
  next
    case False
    with Cons show ?thesis by (simp add: s filter_insert_by_key_other)
  qed
qed

text \<open>
  C4: the list that \<open>test_servers\<close> returns is its collected results in ascending order
  of the sort key, a rearrangement of them; of two results with a latency the earlier
  has the smaller or equal one, and after a result without latency come only results
  without latency.
\<close>

theorem sort_results_spec:
  "sorted_wrt (\<lambda>x y. key_le (latency_key x) (latency_key y)) (sort_results rs)
   \<and> mset (sort_results rs) = mset rs
   \<and> (\<forall>i j a b. i < j \<and> j < length (sort_results rs)
         \<and> latency (sort_results rs ! i) = Some a \<and> latency (sort_results rs ! j) = Some b
        \<longrightarrow> a \<le> b)
   \<and> (\<forall>i j. i < j \<and> j < length (sort_results rs) \<and> latency (sort_results rs ! i) = None
        \<longrightarrow> latency (sort_results rs ! j) = None)"
proof -
  let ?xs = "sort_results rs"
  have s: "sorted_wrt (\<lambda>x y. key_le (latency_key x) (latency_key y)) ?xs"
    unfolding sort_results_def by (rule sorted_list_sort)
  have le: "key_le (latency_key (?xs ! i)) (latency_key (?xs ! j))" if "i < j" "j < length ?xs" for i j
    using s that by (simp add: sorted_wrt_iff_nth_less)
  have num: "a \<le> b" if "i < j" "j < length ?xs" "latency (?xs ! i) = Some a" "latency (?xs ! j) = Some b"
    for i j a b
    using le [OF that(1,2)] that(3,4) by (simp add: latency_key_def)
  have non: "latency (?xs ! j) = None" if "i < j" "j < length ?xs" "latency (?xs ! i) = None" for i j
    using le [OF that(1,2)] that(3) by (cases "latency (?xs ! j)") (simp_all add: latency_key_def)
  show ?thesis
    using s num non by (auto simp: sort_results_def mset_list_sort)
qed

lemma sort_example: "sort_results [res_a, res_b, res_c, res_d] = [res_c, res_b, res_a, res_d]"
  by (simp add: sort_results_def list_sort_def latency_key_def res_a_def res_b_def res_c_def res_d_def)

theorem sort_results_spec_witness:
  "latency (sort_results [res_a, res_b, res_c, res_d] ! 0) = Some 12
   \<and> latency (sort_results [res_a, res_b, res_c, res_d] ! 1) = Some 30.5
   \<and> (12::real) \<le> 30.5
   \<and> latency (sort_results [res_a, res_b, res_c, res_d] ! 2) = None
   \<and> latency (sort_results [res_a, res_b, res_c, res_d] ! 3) = None"
proof -
  let ?xs = "sort_results [res_a, res_b, res_c, res_d]"
  have h: "(0::nat) < 1 \<and> 1 < length ?xs
       \<and> latency (?xs ! 0) = Some 12 \<and> latency (?xs ! 1) = Some 30.5"
    unfolding sort_example by (simp add: res_b_def res_c_def)
  have g: "(2::nat) < 3 \<and> 3 < length ?xs \<and> latency (?xs ! 2) = None"
    unfolding sort_example by (simp add: res_a_def)
  note spec = sort_results_spec [of "[res_a, res_b, res_c, res_d]"]
  from spec h have "12 \<le> (30.5::real)" by blast
  moreover from spec g have "latency (?xs ! 3) = None" by blast
  ultimately show ?thesis using h g by simp
qed

subsection \<open>The relay list\<close>

text \<open>
  C9: \<open>filter_servers_by_protocol\<close> returns its list unchanged when the protocol is
  \<open>None\<close> or is \<^verbatim>\<open>both\<close> in any letter case; so \<open>get_all_servers\<close> without a protocol
  returns every relay its loops extract, and with a protocol the filter of that list.
\<close>

theorem filter_servers_by_protocol_identity:
  "(protocol = None \<or> (\<exists>p. protocol = Some p \<and> py_lower p = ''both'')
      \<longrightarrow> filter_servers_by_protocol servers protocol = servers)
   \<and> (d \<noteq> [] \<and> truthy (dict_get_default d ''countries'' (VList []))
        \<and> py_iter (dict_get_default d ''countries'' (VList [])) = Inr cs
        \<and> country_loop cs = Inr all_servers
      \<longrightarrow> get_all_servers (Some d) None = Inr all_servers
          \<and> get_all_servers (Some d) (Some q) = Inr (filter_servers_by_protocol all_servers (Some q)))"
  by (auto simp: filter_servers_by_protocol_def get_all_servers_def Let_def
           split: option.splits sum.splits)

lemma relay_loop: "country_loop relay_countries = Inr relay_servers"
  by (simp add: relay_countries_def relay_servers_def dict_get_default_def Let_def)

theorem filter_servers_by_protocol_identity_witness:
  "filter_servers_by_protocol relay_servers (Some ''BoTh'') = relay_servers
   \<and> filter_servers_by_protocol relay_servers None = relay_servers
   \<and> get_all_servers (Some relay_data) None = Inr relay_servers
   \<and> get_all_servers (Some relay_data) (Some ''WireGuard'') = Inr [hd relay_servers]"
proof -
  have bo: "py_lower ''BoTh'' = ''both''" by code_simp
  have h1: "Some ''BoTh'' = None \<or> (\<exists>p. Some ''BoTh'' = Some p \<and> py_lower p = ''both'')"
    by (simp add: bo)
  have h2: "None = None \<or> (\<exists>p. None = Some p \<and> py_lower p = ''both'')"
    by simp
  have h3: "relay_data \<noteq> [] \<and> truthy (dict_get_default relay_data ''countries'' (VList []))
        \<and> py_iter (dict_get_default relay_data ''countries'' (VList [])) = Inr relay_countries
        \<and> country_loop relay_countries = Inr relay_servers"
    using relay_loop by (simp add: relay_data_def dict_get_default_def relay_countries_def)
  have wg: "py_lower ''WireGuard'' = ''wireguard''" by code_simp
  have f: "filter_servers_by_protocol relay_servers (Some ''WireGuard'') = [hd relay_servers]"
    by (simp add: filter_servers_by_protocol_def wg relay_servers_def dict_get_def dict_get_default_def
          is_wireguard_def is_openvpn_def)
  note a = filter_servers_by_protocol_identity [of "Some ''BoTh''" relay_servers, THEN conjunct1, THEN mp, OF h1]
  note b = filter_servers_by_protocol_identity [of None relay_servers, THEN conjunct1, THEN mp, OF h2]
  note c = filter_servers_by_protocol_identity [of _ _ relay_data relay_countries relay_servers "''WireGuard''",
             THEN conjunct2, THEN mp, OF h3]
  from a b c f show ?thesis by simp
qed

subsection \<open>Speed probe\<close>

lemmas net_eval = monotonic_def stop_is_set_def sock_send_def sock_recv_def round_timeout_def
  new_session_def






text \<open>
  C2: a round whose deadline passes in \<^verbatim>\<open>recv\<close> (socket.timeout) does not end the session,
  but the 100 bytes that arrived in it are not counted: no received bytes, no successful
  exchange, no round-trip sample. When the deadline is seen by the test of the
  \<^verbatim>\<open>while\<close> loop, the same 100 bytes are counted.
\<close>

theorem recv_timeout_round_accounting:
  "ping_pong_loop False 8192 5.1 new_session silent_peer
     = Some (\<lparr>total_bytes_sent = 8192, total_bytes_received = 0, successful_exchanges = 0,
              rtt_samples = [], loop_error = None\<rparr>,
             \<lparr>clock = [], stop_reads = [], sends = [], recvs = []\<rparr>)
   \<and> ping_pong_loop False 8192 5.1 new_session slow_peer
     = Some (\<lparr>total_bytes_sent = 8192, total_bytes_received = 100, successful_exchanges = 1,
              rtt_samples = [2.2], loop_error = None\<rparr>,
             \<lparr>clock = [], stop_reads = [], sends = [], recvs = []\<rparr>)"
  by (simp add: silent_peer_def slow_peer_def ping_pong_loop.simps recv_loop.simps net_eval)


text \<open>
  C10: for a relay without a non-empty \<^verbatim>\<open>ipv4_addr_in\<close>, \<open>get_server_latency\<close> returns the
  result with latency \<open>None\<close> and \<open>run_socket_ping_pong_test\<close> returns \<open>(None, None)\<close>;
  neither runs a process, connects a socket, or reads the clock, the stop event or a socket.
\<close>

theorem no_address_no_probe:
  "\<not> truthy (dict_get srv ''ipv4_addr_in'')
   \<longrightarrow> get_server_latency h srv ping_count timeout_sec = (Inr \<lparr>server = srv, latency = None\<rparr>, [])
     \<and> run_socket_ping_pong_test conn srv duration chunk_size ports has_event w
         = Some (Inr (None, None), [], w)"
  by (simp add: get_server_latency_def run_socket_ping_pong_test_def)

theorem no_address_no_probe_witness:
  "get_server_latency (linux_host (Inl OtherError)) relay_unaddressed 3 10
     = (Inr \<lparr>server = relay_unaddressed, latency = None\<rparr>, [])
   \<and> run_socket_ping_pong_test only_port_80 relay_unaddressed 5 8192 DEFAULT_PORTS False two_port_net
       = Some (Inr (None, None), [], two_port_net)
   \<and> get_server_latency (linux_host (Inl OtherError)) [] 3 10 = (Inr \<lparr>server = [], latency = None\<rparr>, [])"
proof -
  have h1: "\<not> truthy (dict_get relay_unaddressed ''ipv4_addr_in'')"
    by (simp add: relay_unaddressed_def dict_get_def dict_get_default_def)
  have h2: "\<not> truthy (dict_get [] ''ipv4_addr_in'')"
    by (simp add: dict_get_def dict_get_default_def)
  note a = no_address_no_probe [of relay_unaddressed "linux_host (Inl OtherError)" 3 10 only_port_80
      5 8192 DEFAULT_PORTS False two_port_net, THEN mp, OF h1]
  note b = no_address_no_probe [of "[]" "linux_host (Inl OtherError)" 3 10 only_port_80
      5 8192 DEFAULT_PORTS False two_port_net, THEN mp, OF h2]
  from a b show ?thesis by blast
qed



subsection \<open>The worker pool\<close>

lemma held_by_update:
  "i < length ts \<Longrightarrow>
   mset (concat (map held_by (ts[i := x]))) + mset (held_by (ts ! i))
     = mset (concat (map held_by ts)) + mset (held_by x)"
proof (induction ts arbitrary: i)
  case Nil
  then show ?case by simp
next
  case (Cons t ts)
  then show ?case by (cases i) (simp_all add: add.assoc add.left_commute)
qed

lemma owes_update:
  "i < length ts \<Longrightarrow>
   length (filter owes_task_done (ts[i := x])) + (if owes_task_done (ts ! i) then 1 else 0)
     = length (filter owes_task_done ts) + (if owes_task_done x then 1 else 0)"
proof (induction ts arbitrary: i)
  case Nil
  then show ?case by simp
next
  case (Cons t ts)
  show ?case
  proof (cases i)
    case 0
    then show ?thesis by simp
  next
    case (Suc j)
    with Cons.prems have "j < length ts" by simp
    from Cons.IH [OF this] Suc show ?thesis by simp
  qed
qed

lemma get_server_latency_returns:
  "\<exists>r. fst (get_server_latency h srv pc t) = Inr r \<and> server r = srv"
proof (cases "truthy (dict_get srv ''ipv4_addr_in'')")
  case False
  then show ?thesis by (simp add: get_server_latency_def)
next
  case True
  obtain v fx where "ping_test h (dict_get srv ''ipv4_addr_in'') pc (t div 2) = (Inr v, fx)"
    using ping_test_returns [of h "dict_get srv ''ipv4_addr_in''" pc "t div 2"]
    by (cases "ping_test h (dict_get srv ''ipv4_addr_in'') pc (t div 2)") auto
  with True show ?thesis by (simp add: get_server_latency_def)
qed

lemma initial_inv: "pool_inv args (initial_pool args stop pause)"
  by (simp add: pool_inv_def initial_pool_def in_flight_def sort_results_def list_sort_def)

lemma set_stop_inv: "pool_inv args p \<Longrightarrow> pool_inv args (p\<lparr>stop_event := True\<rparr>)"
  unfolding pool_inv_def in_flight_def by auto

lemma set_pause_inv: "pool_inv args p \<Longrightarrow> pool_inv args (p\<lparr>pause_event := b\<rparr>)"
  unfolding pool_inv_def in_flight_def by auto

lemma main_step_inv:
  assumes "pool_inv args p" and "main_step args p = Some p'"
  shows "pool_inv args p'"
proof (cases "coordinator p")
  case (Starting i)
  with assms show ?thesis
    unfolding pool_inv_def main_step_def in_flight_def by (auto split: if_splits)
next
  case WaitLoop
  with assms show ?thesis
    unfolding pool_inv_def main_step_def in_flight_def by (auto split: if_splits)
next
  case CheckUnfinished
  with assms show ?thesis
    unfolding pool_inv_def main_step_def in_flight_def by (auto split: if_splits)
next
  case AfterLoop
  with assms show ?thesis
    unfolding pool_inv_def main_step_def in_flight_def by (auto split: if_splits)
next
  case Draining
  with assms show ?thesis
    unfolding pool_inv_def main_step_def in_flight_def by (auto split: if_splits)
next
  case DrainGet
  with assms show ?thesis
    unfolding pool_inv_def main_step_def in_flight_def task_done_def
    by (auto split: if_splits list.splits)
next
  case Collecting
  with assms show ?thesis
    unfolding pool_inv_def main_step_def in_flight_def
    by (auto split: if_splits list.splits)
next
  case (Returned rs)
  with assms show ?thesis by (simp add: main_step_def)
next
  case (Raised e)
  with assms show ?thesis by (simp add: main_step_def)
qed

lemma held_same:
  "i < length ts \<Longrightarrow> held_by (ts ! i) = held_by x \<Longrightarrow>
   mset (concat (map held_by (ts[i := x]))) = mset (concat (map held_by ts))"
  using held_by_update [of i ts x] by simp

lemma held_drop:
  "i < length ts \<Longrightarrow> held_by (ts ! i) = [s] \<Longrightarrow> held_by x = [] \<Longrightarrow>
   mset (concat (map held_by ts)) = add_mset s (mset (concat (map held_by (ts[i := x]))))"
  using held_by_update [of i ts x] by simp

lemma held_add:
  "i < length ts \<Longrightarrow> held_by (ts ! i) = [] \<Longrightarrow> held_by x = [s] \<Longrightarrow>
   mset (concat (map held_by (ts[i := x]))) = add_mset s (mset (concat (map held_by ts)))"
  using held_by_update [of i ts x] by simp

lemma owes_same:
  "i < length ts \<Longrightarrow> owes_task_done (ts ! i) = owes_task_done x \<Longrightarrow>
   length (filter owes_task_done (ts[i := x])) = length (filter owes_task_done ts)"
  using owes_update [of i ts x] by simp

lemma owes_drop:
  "i < length ts \<Longrightarrow> owes_task_done (ts ! i) \<Longrightarrow> \<not> owes_task_done x \<Longrightarrow>
   length (filter owes_task_done ts) = Suc (length (filter owes_task_done (ts[i := x])))"
  using owes_update [of i ts x] by simp

lemma owes_add:
  "i < length ts \<Longrightarrow> \<not> owes_task_done (ts ! i) \<Longrightarrow> owes_task_done x \<Longrightarrow>
   length (filter owes_task_done (ts[i := x])) = Suc (length (filter owes_task_done ts))"
  using owes_update [of i ts x] by simp

lemma worker_step_inv:
  assumes inv: "pool_inv args p" and step: "worker_step args i others h p = Some p'"
  shows "pool_inv args p'"
proof -
  from step have i: "i < length (threads p)"
    by (auto simp: worker_step_def split: if_splits)
  show ?thesis
  proof (cases "threads p ! i")
    case LoopHead
    then have h: "held_by (threads p ! i) = held_by x" "owes_task_done (threads p ! i) = owes_task_done x"
      if "x = Exited \<or> x = PauseCheck" for x using that by auto
    from step i LoopHead
    have p': "p' = p\<lparr>threads := (threads p)[i := (if stop_event p then Exited else PauseCheck)]\<rparr>"
      by (simp add: worker_step_def)
    show ?thesis
      using inv unfolding p' pool_inv_def in_flight_def
      by (auto simp: held_same [OF i h(1)] owes_same [OF i h(2)])
  next
    case PauseCheck
    then have h: "held_by (threads p ! i) = held_by x" "owes_task_done (threads p ! i) = owes_task_done x"
      if "x = LoopHead \<or> x = Getting" for x using that by auto
    from step i PauseCheck
    have p': "p' = p\<lparr>threads := (threads p)[i := (if pause_event p then LoopHead else Getting)]\<rparr>"
      by (simp add: worker_step_def)
    show ?thesis
      using inv unfolding p' pool_inv_def in_flight_def
      by (auto simp: held_same [OF i h(1)] owes_same [OF i h(2)])
  next
    case Getting
    show ?thesis
    proof (cases "server_queue p")
      case Nil
      from Getting have h: "held_by (threads p ! i) = held_by x" "owes_task_done (threads p ! i) = owes_task_done x"
        if "x = LoopHead \<or> x = Exited" for x using that by auto
      from step i Getting Nil
      have p': "p' = p\<lparr>threads := (threads p)[i := (if int (active_count p others) \<le> arg_max_workers args + 1
                  then Exited else LoopHead)]\<rparr>"
        by (auto simp: worker_step_def split: if_splits)
      show ?thesis
        using inv unfolding p' pool_inv_def in_flight_def
        by (auto simp: held_same [OF i h(1)] owes_same [OF i h(2)])
    next
      case (Cons srv rest)
      from step i Getting Cons
      have p': "p' = p\<lparr>server_queue := rest, threads := (threads p)[i := Holding srv]\<rparr>"
        by (simp add: worker_step_def)
      have ha: "mset (concat (map held_by ((threads p)[i := Holding srv])))
                  = add_mset srv (mset (concat (map held_by (threads p))))"
        using Getting by (intro held_add [OF i]) simp_all
      have oa: "length (filter owes_task_done ((threads p)[i := Holding srv]))
                  = Suc (length (filter owes_task_done (threads p)))"
        using Getting by (intro owes_add [OF i]) simp_all
      show ?thesis
        using inv Cons unfolding p' pool_inv_def in_flight_def
        by (auto simp: ha oa)
    qed
  next
    case (Holding srv)
    show ?thesis
    proof (cases "stop_event p")
      case False
      from Holding have h: "held_by (threads p ! i) = held_by (Probing srv)"
        "owes_task_done (threads p ! i) = owes_task_done (Probing srv)" by auto
      from step i Holding False
      have p': "p' = p\<lparr>threads := (threads p)[i := Probing srv]\<rparr>"
        by (simp add: worker_step_def)
      show ?thesis
        using inv unfolding p' pool_inv_def in_flight_def
        by (auto simp: held_same [OF i h(1)] owes_same [OF i h(2)])
    next
      case True
      have hd: "mset (concat (map held_by (threads p)))
                  = add_mset srv (mset (concat (map held_by ((threads p)[i := Exited]))))"
        using Holding by (intro held_drop [OF i]) simp_all
      have od: "length (filter owes_task_done (threads p))
                  = Suc (length (filter owes_task_done ((threads p)[i := Exited])))"
        using Holding by (intro owes_drop [OF i]) simp_all
      from inv od have u: "unfinished_tasks p \<noteq> 0" by (simp add: pool_inv_def)
      from step i Holding True u
      have p': "p' = p\<lparr>unfinished_tasks := unfinished_tasks p - 1, threads := (threads p)[i := Exited],
                        skipped := skipped p @ [srv]\<rparr>"
        by (simp add: worker_step_def task_done_def)
      show ?thesis
        using inv True unfolding p' pool_inv_def in_flight_def
        by (auto simp: hd od)
    qed
  next
    case (Probing srv)
    from get_server_latency_returns [of h srv "arg_ping_count args" "arg_timeout_sec args"]
    obtain r where r: "fst (get_server_latency h srv (arg_ping_count args) (arg_timeout_sec args)) = Inr r"
      and sr: "server r = srv" by blast
    from step i Probing r
    have p': "p' = p\<lparr>result_queue := result_queue p @ [r], threads := (threads p)[i := Counting]\<rparr>"
      by (simp add: worker_step_def)
    have hd: "mset (concat (map held_by (threads p)))
                = add_mset srv (mset (concat (map held_by ((threads p)[i := Counting]))))"
      using Probing by (intro held_drop [OF i]) simp_all
    have os: "length (filter owes_task_done ((threads p)[i := Counting]))
                = length (filter owes_task_done (threads p))"
      using Probing by (intro owes_same [OF i]) simp_all
    have od: "length (filter owes_task_done (threads p))
                = Suc (length (filter owes_task_done ((threads p)[i := Exited])))"
      using Probing by (intro owes_drop [OF i]) simp_all
    show ?thesis
      using inv sr od unfolding p' pool_inv_def in_flight_def
      by (auto simp: hd os)
  next
    case Counting
    from Counting have h: "held_by (threads p ! i) = held_by Finishing"
      "owes_task_done (threads p ! i) = owes_task_done Finishing" by auto
    from step i Counting
    have p': "p' = p\<lparr>completed := completed p + 1, threads := (threads p)[i := Finishing]\<rparr>"
      by (simp add: worker_step_def)
    show ?thesis
      using inv unfolding p' pool_inv_def in_flight_def
      by (auto simp: held_same [OF i h(1)] owes_same [OF i h(2)])
  next
    case Finishing
    from Finishing have h: "held_by (threads p ! i) = held_by LoopHead" by auto
    have od: "length (filter owes_task_done (threads p))
                = Suc (length (filter owes_task_done ((threads p)[i := LoopHead])))"
      using Finishing by (intro owes_drop [OF i]) simp_all
    from inv od have u: "unfinished_tasks p \<noteq> 0" by (simp add: pool_inv_def)
    from step i Finishing u
    have p': "p' = p\<lparr>unfinished_tasks := unfinished_tasks p - 1, threads := (threads p)[i := LoopHead]\<rparr>"
      by (simp add: worker_step_def task_done_def)
    show ?thesis
      using inv unfolding p' pool_inv_def in_flight_def
      by (auto simp: held_same [OF i h] od)
  next
    case Exited
    with step i show ?thesis by (simp add: worker_step_def)
  qed
qed

lemma apply_action_inv:
  "pool_inv args p \<Longrightarrow> apply_action args a p = Some p' \<Longrightarrow> pool_inv args p'"
proof (cases a)
  case (Worker i others h)
  assume "pool_inv args p" "apply_action args a p = Some p'"
  with Worker show ?thesis using worker_step_inv [of args p i others h p'] by simp
next
  case Coordinator
  assume "pool_inv args p" "apply_action args a p = Some p'"
  with Coordinator show ?thesis using main_step_inv [of args p p'] by simp
next
  case SetStop
  assume "pool_inv args p" "apply_action args a p = Some p'"
  with SetStop show ?thesis using set_stop_inv [of args p] by auto
next
  case (SetPause b)
  assume "pool_inv args p" "apply_action args a p = Some p'"
  with SetPause show ?thesis using set_pause_inv [of args p b] by auto
qed

lemma run_schedule_inv:
  "pool_inv args p \<Longrightarrow> run_schedule args acts p = Some p' \<Longrightarrow> pool_inv args p'"
proof (induction acts arbitrary: p)
  case Nil
  then show ?case by simp
next
  case (Cons a acts)
  from Cons.prems(2) obtain q where q: "apply_action args a p = Some q"
    and r: "run_schedule args acts q = Some p'"
    by (cases "apply_action args a p") auto
  from Cons.IH [OF apply_action_inv [OF Cons.prems(1) q] r] show ?case .
qed

lemma reachable_inv:
  "run_schedule args acts (initial_pool args stop pause) = Some p \<Longrightarrow> pool_inv args p"
  using run_schedule_inv [OF initial_inv] by blast

text \<open>Only the caller sets the stop event.\<close>

lemma worker_step_stop: "worker_step args i others h p = Some p' \<Longrightarrow> stop_event p' = stop_event p"
  by (auto simp: worker_step_def task_done_def
        split: if_splits worker_pc.splits list.splits option.splits sum.splits)

lemma main_step_stop: "main_step args p = Some p' \<Longrightarrow> stop_event p' = stop_event p"
  by (auto simp: main_step_def task_done_def
        split: if_splits main_pc.splits list.splits option.splits)

lemma run_schedule_no_stop:
  "run_schedule args acts p = Some p' \<Longrightarrow> SetStop \<notin> set acts \<Longrightarrow> stop_event p' = stop_event p"
proof (induction acts arbitrary: p)
  case Nil
  then show ?case by simp
next
  case (Cons a acts)
  from Cons.prems(1) obtain q where q: "apply_action args a p = Some q"
    and r: "run_schedule args acts q = Some p'"
    by (cases "apply_action args a p") auto
  from Cons.prems(2) have na: "a \<noteq> SetStop" and ns: "SetStop \<notin> set acts" by auto
  from q na have "stop_event q = stop_event p"
    by (cases a) (auto dest: worker_step_stop main_step_stop)
  with Cons.IH [OF r ns] show ?case by simp
qed

lemma owes_held: "filter owes_task_done ts = [] \<Longrightarrow> concat (map held_by ts) = []"
proof (induction ts)
  case Nil
  then show ?case by simp
next
  case (Cons t ts)
  then show ?case by (cases t) (simp_all split: if_splits)
qed

lemma returned_without_stop:
  assumes inv: "pool_inv args p" and ret: "coordinator p = Returned rs" and ns: "\<not> stop_event p"
  shows "mset (map server rs) = mset (arg_servers args)"
proof -
  from inv ret ns have u: "unfinished_tasks p = 0" unfolding pool_inv_def by blast
  from inv have "unfinished_tasks p = length (server_queue p) + length (filter owes_task_done (threads p))"
    unfolding pool_inv_def by blast
  with u have q: "server_queue p = []" and o: "filter owes_task_done (threads p) = []" by simp_all
  from o have f: "in_flight p = []" unfolding in_flight_def by (rule owes_held)
  from inv ret ns have rq: "result_queue p = []" unfolding pool_inv_def by blast
  from inv ns have sk: "skipped p = []" unfolding pool_inv_def by blast
  from inv have fl: "failed p = []" unfolding pool_inv_def by blast
  from inv ret have rs: "rs = sort_results (results p)" unfolding pool_inv_def by blast
  from inv have "mset (server_queue p) + mset (in_flight p) + mset (map server (result_queue p))
       + mset (map server (results p)) + mset (skipped p) + mset (failed p) = mset (arg_servers args)"
    unfolding pool_inv_def by blast
  with q f rq sk fl have "mset (map server (results p)) = mset (arg_servers args)" by simp
  moreover have "mset (map server rs) = mset (map server (results p))"
    unfolding rs sort_results_def using mset_list_sort [of latency_key "results p"]
    by (metis mset_map)
  ultimately show ?thesis by simp
qed

lemma places_add_up:
  assumes inv: "pool_inv args p"
  shows "length (server_queue p) + length (in_flight p) + length (result_queue p)
           + length (results p) + length (skipped p) = length (arg_servers args)"
proof -
  from inv have "mset (server_queue p) + mset (in_flight p) + mset (map server (result_queue p))
       + mset (map server (results p)) + mset (skipped p) + mset (failed p) = mset (arg_servers args)"
    and fl: "failed p = []"
    unfolding pool_inv_def by blast+
  then have "size (mset (server_queue p) + mset (in_flight p) + mset (map server (result_queue p))
       + mset (map server (results p)) + mset (skipped p)) = size (mset (arg_servers args))"
    by simp
  then show ?thesis by simp
qed

lemma worker_exit_cause:
  assumes inv: "pool_inv args p" and step: "worker_step args i others h p = Some p'"
    and ex: "threads p' ! i = Exited"
  shows "stop_event p \<or> (threads p ! i = Getting \<and> server_queue p = []
           \<and> int (active_count p others) \<le> arg_max_workers args + 1)"
proof -
  from step have i: "i < length (threads p)"
    by (auto simp: worker_step_def split: if_splits)
  show ?thesis
  proof (cases "threads p ! i")
    case (Holding srv)
    with step i ex show ?thesis
      by (auto simp: worker_step_def task_done_def split: if_splits)
  next
    case Finishing
    have "length (filter owes_task_done (threads p))
                = Suc (length (filter owes_task_done ((threads p)[i := LoopHead])))"
      using Finishing by (intro owes_drop [OF i]) simp_all
    with inv have "unfinished_tasks p \<noteq> 0" by (simp add: pool_inv_def)
    with step i ex Finishing show ?thesis
      by (auto simp: worker_step_def task_done_def split: if_splits)
  next
    case (Probing srv)
    with step i ex show ?thesis
      by (auto simp: worker_step_def split: if_splits sum.splits)
  qed (use step i ex in \<open>auto simp: worker_step_def split: if_splits list.splits\<close>)
qed

lemma probe_relay_10:
  "fst (get_server_latency timeout_host relay_10 3 10) = Inr relay_10_result"
  by (simp add: get_server_latency_def relay_10_def relay_10_result_def dict_get_def dict_get_default_def
        ping_test_def ping_try_def timeout_host_def linux_host_def)

lemmas pool_eval = one_relay_args_def initial_pool_def main_step_def worker_step_def task_done_def
  active_count_def probe_relay_10 [unfolded relay_10_def] relay_10_result_def relay_10_def
  sort_results_def list_sort_def

lemma full_run:
  "run_schedule one_relay_args full_schedule (initial_pool one_relay_args False False) = Some returned_pool"
  by (simp add: full_schedule_def returned_pool_def pool_eval eval_nat_numeral)

lemma stopped_run:
  "run_schedule one_relay_args stopped_schedule (initial_pool one_relay_args False False) = Some stopped_pool"
  by (simp add: stopped_schedule_def stopped_pool_def pool_eval eval_nat_numeral)

lemma drained_run:
  "run_schedule one_relay_args drained_schedule (initial_pool one_relay_args False False) = Some drained_pool"
  by (simp add: drained_schedule_def drained_pool_def pool_eval eval_nat_numeral)

lemma run_schedule_append:
  "run_schedule args (as @ bs) p =
     (case run_schedule args as p of None \<Rightarrow> None | Some q \<Rightarrow> run_schedule args bs q)"
  by (induction as arbitrary: p) (auto split: option.splits)

lemma probe_one:
  assumes q: "quiet p" and sq: "server_queue p = srv # rest"
  shows "\<exists>p'. run_schedule args (replicate 7 (Worker 0 others h)) p = Some p'
           \<and> quiet p' \<and> server_queue p' = rest"
proof -
  from q have ne: "0 < length (threads p)" and lh: "threads p ! 0 = LoopHead"
    and ns: "\<not> stop_event p" and np: "\<not> pause_event p" and co: "coordinator p = WaitLoop"
    and un: "unfinished_tasks p = length (server_queue p)"
    by (simp_all add: quiet_def)
  obtain r where r: "fst (get_server_latency h srv (arg_ping_count args) (arg_timeout_sec args)) = Inr r"
    using get_server_latency_returns by blast
  let ?w = "worker_step args 0 others h"
  let ?p1 = "p\<lparr>threads := (threads p)[0 := PauseCheck]\<rparr>"
  let ?p2 = "p\<lparr>threads := (threads p)[0 := Getting]\<rparr>"
  let ?p3 = "p\<lparr>server_queue := rest, threads := (threads p)[0 := Holding srv]\<rparr>"
  let ?p4 = "p\<lparr>server_queue := rest, threads := (threads p)[0 := Probing srv]\<rparr>"
  let ?p5 = "p\<lparr>server_queue := rest, result_queue := result_queue p @ [r],
               threads := (threads p)[0 := Counting]\<rparr>"
  let ?p6 = "p\<lparr>server_queue := rest, result_queue := result_queue p @ [r],
               completed := completed p + 1, threads := (threads p)[0 := Finishing]\<rparr>"
  let ?p7 = "p\<lparr>server_queue := rest, result_queue := result_queue p @ [r],
               completed := completed p + 1, unfinished_tasks := unfinished_tasks p - 1,
               threads := (threads p)[0 := LoopHead]\<rparr>"
  have s1: "?w p = Some ?p1" using ne lh ns by (simp add: worker_step_def)
  have s2: "?w ?p1 = Some ?p2" using ne np by (simp add: worker_step_def)
  have s3: "?w ?p2 = Some ?p3" using ne sq by (simp add: worker_step_def)
  have s4: "?w ?p3 = Some ?p4" using ne ns by (simp add: worker_step_def)
  have s5: "?w ?p4 = Some ?p5" using ne r by (simp add: worker_step_def)
  have s6: "?w ?p5 = Some ?p6" using ne by (simp add: worker_step_def)
  have s7: "?w ?p6 = Some ?p7" using ne un sq by (simp add: worker_step_def task_done_def)
  have seven: "replicate 7 a = [a, a, a, a, a, a, a]" for a :: action
    by (simp add: eval_nat_numeral)
  have "run_schedule args (replicate 7 (Worker 0 others h)) p = Some ?p7"
    unfolding seven
    by (simp only: run_schedule.simps apply_action.simps s1 s2 s3 s4 s5 s6 s7 option.case)
  moreover have "quiet ?p7" using ne lh ns np co un sq by (simp add: quiet_def)
  moreover have "server_queue ?p7 = rest" by simp
  ultimately show ?thesis by blast
qed

lemma probe_all:
  "quiet p \<Longrightarrow> server_queue p = q \<Longrightarrow>
   \<exists>p'. run_schedule args (concat (replicate (length q) (replicate 7 (Worker 0 others h)))) p = Some p'
     \<and> quiet p' \<and> server_queue p' = []"
proof (induction q arbitrary: p)
  case Nil
  then show ?case by simp
next
  case (Cons srv rest)
  from probe_one [OF Cons.prems] obtain p1
    where r1: "run_schedule args (replicate 7 (Worker 0 others h)) p = Some p1"
      and q1: "quiet p1" and s1: "server_queue p1 = rest"
    by blast
  from Cons.IH [OF q1 s1] obtain p'
    where r2: "run_schedule args (concat (replicate (length rest) (replicate 7 (Worker 0 others h)))) p1 = Some p'"
      and q2: "quiet p'" and s2: "server_queue p' = []"
    by blast
  have "run_schedule args (concat (replicate (length (srv # rest)) (replicate 7 (Worker 0 others h)))) p = Some p'"
    using r1 r2 by (simp add: run_schedule_append)
  with q2 s2 show ?case by blast
qed

lemma collect_all:
  "coordinator p = Collecting \<Longrightarrow> result_queue p = rq \<Longrightarrow>
   \<exists>p' rs. run_schedule args (replicate (Suc (length rq)) Coordinator) p = Some p'
     \<and> coordinator p' = Returned rs"
proof (induction rq arbitrary: p)
  case Nil
  then show ?case by (simp add: main_step_def)
next
  case (Cons r rest)
  let ?p1 = "p\<lparr>result_queue := rest, results := results p @ [r]\<rparr>"
  from Cons.prems have s: "main_step args p = Some ?p1" by (simp add: main_step_def)
  have "coordinator ?p1 = Collecting" "result_queue ?p1 = rest" using Cons.prems by simp_all
  from Cons.IH [OF this] obtain p' rs
    where "run_schedule args (replicate (Suc (length rest)) Coordinator) ?p1 = Some p'"
      and "coordinator p' = Returned rs" by blast
  with s show ?case by auto
qed

lemma start_workers:
  "int j \<le> min (arg_max_workers args) (int (length (arg_servers args))) \<Longrightarrow> arg_servers args \<noteq> [] \<Longrightarrow>
   run_schedule args (replicate j Coordinator) (initial_pool args False False)
     = Some ((initial_pool args False False)\<lparr>threads := replicate j LoopHead, coordinator := Starting j\<rparr>)"
proof (induction j)
  case 0
  then show ?case by (simp add: initial_pool_def)
next
  case (Suc j)
  let ?pj = "(initial_pool args False False)\<lparr>threads := replicate j LoopHead, coordinator := Starting j\<rparr>"
  from Suc have ih: "run_schedule args (replicate j Coordinator) (initial_pool args False False) = Some ?pj"
    by simp
  from Suc.prems have "int j < min (arg_max_workers args) (int (length (arg_servers args)))" by simp
  then have "main_step args ?pj = Some (?pj\<lparr>threads := replicate j LoopHead @ [LoopHead],
       coordinator := Starting (j + 1)\<rparr>)"
    by (simp add: main_step_def)
  moreover have "replicate j LoopHead @ [LoopHead] = replicate (Suc j) LoopHead"
    by (simp add: replicate_append_same)
  ultimately have st: "main_step args ?pj = Some ((initial_pool args False False)\<lparr>threads := replicate (Suc j) LoopHead,
       coordinator := Starting (Suc j)\<rparr>)"
    by simp
  have "replicate (Suc j) Coordinator = replicate j Coordinator @ [Coordinator]"
    by (simp add: replicate_append_same)
  then show ?case using ih st by (simp add: run_schedule_append)
qed

lemma run_can_return:
  assumes w: "1 \<le> arg_max_workers args"
  shows "\<exists>acts p rs. SetStop \<notin> set acts
     \<and> run_schedule args acts (initial_pool args False False) = Some p \<and> coordinator p = Returned rs"
proof (cases "arg_servers args = []")
  case True
  then have "run_schedule args [] (initial_pool args False False) = Some (initial_pool args False False)"
    and "coordinator (initial_pool args False False) = Returned []"
    by (simp_all add: initial_pool_def)
  then show ?thesis by (intro exI [of _ "[]"]) auto
next
  case False
  define k where "k = nat (min (arg_max_workers args) (int (length (arg_servers args))))"
  from False w have k: "int k = min (arg_max_workers args) (int (length (arg_servers args)))" and k1: "0 < k"
    by (auto simp: k_def)
  let ?init = "initial_pool args False False"
  let ?pk = "?init\<lparr>threads := replicate k LoopHead, coordinator := Starting k\<rparr>"
  let ?p0 = "?init\<lparr>threads := replicate k LoopHead, coordinator := WaitLoop\<rparr>"
  have a1: "run_schedule args (replicate k Coordinator) ?init = Some ?pk"
    using k False by (intro start_workers) simp_all
  have a2: "main_step args ?pk = Some ?p0"
    using k by (simp add: main_step_def)
  have q0: "quiet ?p0" using k1 by (simp add: quiet_def initial_pool_def)
  from probe_all [OF q0 refl, of args 0 "linux_host (Inl TimeoutExpired)"] obtain p1
    where a3: "run_schedule args (concat (replicate (length (server_queue ?p0))
                 (replicate 7 (Worker 0 0 (linux_host (Inl TimeoutExpired)))))) ?p0 = Some p1"
      and q1: "quiet p1" and e1: "server_queue p1 = []"
    by blast
  from q1 e1 have ns: "\<not> stop_event p1" and co: "coordinator p1 = WaitLoop" and un: "unfinished_tasks p1 = 0"
    by (simp_all add: quiet_def)
  let ?p2 = "p1\<lparr>coordinator := Collecting\<rparr>"
  have a4: "run_schedule args [Coordinator, Coordinator, Coordinator] p1 = Some ?p2"
    using ns co un by (simp add: main_step_def)
  from collect_all [of ?p2 "result_queue p1" args] obtain p3 rs
    where a5: "run_schedule args (replicate (Suc (length (result_queue p1))) Coordinator) ?p2 = Some p3"
      and ret: "coordinator p3 = Returned rs"
    by auto
  let ?acts = "replicate k Coordinator @ [Coordinator]
     @ concat (replicate (length (server_queue ?p0)) (replicate 7 (Worker 0 0 (linux_host (Inl TimeoutExpired)))))
     @ [Coordinator, Coordinator, Coordinator]
     @ replicate (Suc (length (result_queue p1))) Coordinator"
  have "run_schedule args ?acts ?init = Some p3"
    using a1 a2 a3 a4 a5 by (simp only: run_schedule_append run_schedule.simps apply_action.simps option.case)
  moreover have "SetStop \<notin> set ?acts" by auto
  ultimately show ?thesis using ret by blast
qed

text \<open>
  C1, as the code has it: when the stop event is never set and \<open>test_servers\<close> returns,
  it returns one result for each submitted target, so exactly as many results as targets
  (each with a latency or with \<open>None\<close>). In every run and at every moment the queued
  targets, the targets held by workers, the results in the result queue, the collected
  results and the skipped targets add up to the number of targets; when \<open>test_servers\<close>
  returns the queue is empty and the returned list is the collected results. A worker
  exits only when it sees the stop event, or when its \<^verbatim>\<open>get\<close> times out on the empty queue
  and \<^verbatim>\<open>threading.active_count() <= max_workers + 1\<close>. With at least one worker there
  is a run without stop that returns, with as many results as targets.
\<close>

theorem test_servers_accounting:
  "(run_schedule args acts (initial_pool args False pause) = Some p \<and> SetStop \<notin> set acts
       \<and> coordinator p = Returned rs
      \<longrightarrow> length rs = length (arg_servers args) \<and> mset (map server rs) = mset (arg_servers args))
   \<and> (run_schedule args acts2 (initial_pool args stop2 pause2) = Some p2
      \<longrightarrow> length (server_queue p2) + length (in_flight p2) + length (result_queue p2)
            + length (results p2) + length (skipped p2) = length (arg_servers args)
          \<and> (\<forall>rs2. coordinator p2 = Returned rs2
                \<longrightarrow> server_queue p2 = [] \<and> length rs2 = length (results p2)))
   \<and> (run_schedule args acts3 (initial_pool args stop3 pause3) = Some p3
       \<and> worker_step args i others h p3 = Some p3' \<and> threads p3' ! i = Exited
      \<longrightarrow> stop_event p3 \<or> (threads p3 ! i = Getting \<and> server_queue p3 = []
            \<and> int (active_count p3 others) \<le> arg_max_workers args + 1))
   \<and> (1 \<le> arg_max_workers args
      \<longrightarrow> (\<exists>acts4 p4 rs4. SetStop \<notin> set acts4
            \<and> run_schedule args acts4 (initial_pool args False False) = Some p4
            \<and> coordinator p4 = Returned rs4 \<and> length rs4 = length (arg_servers args)))"
proof (intro conjI impI)
  assume h: "run_schedule args acts (initial_pool args False pause) = Some p \<and> SetStop \<notin> set acts
       \<and> coordinator p = Returned rs"
  then have inv: "pool_inv args p" using reachable_inv by blast
  from h have "stop_event p = stop_event (initial_pool args False pause)"
    using run_schedule_no_stop by blast
  then have ns: "\<not> stop_event p" by (simp add: initial_pool_def)
  from h have ret: "coordinator p = Returned rs" by blast
  have m: "mset (map server rs) = mset (arg_servers args)"
    by (rule returned_without_stop [OF inv ret ns])
  then have "size (mset (map server rs)) = size (mset (arg_servers args))" by simp
  then show "length rs = length (arg_servers args)" by simp
  show "mset (map server rs) = mset (arg_servers args)" by (rule m)
next
  assume h: "run_schedule args acts2 (initial_pool args stop2 pause2) = Some p2"
  then have inv: "pool_inv args p2" by (rule reachable_inv)
  show "length (server_queue p2) + length (in_flight p2) + length (result_queue p2)
            + length (results p2) + length (skipped p2) = length (arg_servers args)"
    by (rule places_add_up [OF inv])
  show "\<forall>rs2. coordinator p2 = Returned rs2 \<longrightarrow> server_queue p2 = [] \<and> length rs2 = length (results p2)"
  proof (intro allI impI)
    fix rs2 assume ret: "coordinator p2 = Returned rs2"
    with inv have q: "server_queue p2 = []" and rs: "rs2 = sort_results (results p2)"
      unfolding pool_inv_def by blast+
    have "size (mset (sort_results (results p2))) = size (mset (results p2))"
      unfolding sort_results_def by (simp only: mset_list_sort)
    with q rs show "server_queue p2 = [] \<and> length rs2 = length (results p2)" by simp
  qed
next
  assume h: "run_schedule args acts3 (initial_pool args stop3 pause3) = Some p3
       \<and> worker_step args i others h p3 = Some p3' \<and> threads p3' ! i = Exited"
  then have inv: "pool_inv args p3" using reachable_inv by blast
  from h show "stop_event p3 \<or> (threads p3 ! i = Getting \<and> server_queue p3 = []
            \<and> int (active_count p3 others) \<le> arg_max_workers args + 1)"
    using worker_exit_cause [OF inv] by blast
next
  assume "1 \<le> arg_max_workers args"
  from run_can_return [OF this] obtain acts4 p4 rs4 where ns: "SetStop \<notin> set acts4"
    and run: "run_schedule args acts4 (initial_pool args False False) = Some p4"
    and ret: "coordinator p4 = Returned rs4"
    by blast
  from run have inv: "pool_inv args p4" by (rule reachable_inv)
  from run_schedule_no_stop [OF run ns] have "\<not> stop_event p4" by (simp add: initial_pool_def)
  from returned_without_stop [OF inv ret this]
  have "size (mset (map server rs4)) = size (mset (arg_servers args))" by simp
  then have "length rs4 = length (arg_servers args)" by simp
  with ns run ret
  show "\<exists>acts4 p4 rs4. SetStop \<notin> set acts4
            \<and> run_schedule args acts4 (initial_pool args False False) = Some p4
            \<and> coordinator p4 = Returned rs4 \<and> length rs4 = length (arg_servers args)"
    by blast
qed

lemma drained_steps:
  "worker_step one_relay_args 0 5 timeout_host drained_pool = Some (drained_pool\<lparr>threads := [LoopHead]\<rparr>)"
  "worker_step one_relay_args 0 0 timeout_host drained_pool = Some (drained_pool\<lparr>threads := [Exited]\<rparr>)"
  by (simp_all add: drained_pool_def worker_step_def one_relay_args_def active_count_def)

theorem test_servers_accounting_witness:
  "length [relay_10_result] = length (arg_servers one_relay_args)
   \<and> mset (map server [relay_10_result]) = mset (arg_servers one_relay_args)
   \<and> length (server_queue stopped_pool) + length (in_flight stopped_pool)
        + length (result_queue stopped_pool) + length (results stopped_pool)
        + length (skipped stopped_pool) = length (arg_servers one_relay_args)
   \<and> (stop_event drained_pool \<or> (threads drained_pool ! 0 = Getting \<and> server_queue drained_pool = []
        \<and> int (active_count drained_pool 0) \<le> arg_max_workers one_relay_args + 1))
   \<and> (\<exists>acts4 p4 rs4. SetStop \<notin> set acts4
        \<and> run_schedule one_relay_args acts4 (initial_pool one_relay_args False False) = Some p4
        \<and> coordinator p4 = Returned rs4 \<and> length rs4 = length (arg_servers one_relay_args))"
proof -
  have ns: "SetStop \<notin> set full_schedule" by (simp add: full_schedule_def)
  have ret: "coordinator returned_pool = Returned [relay_10_result]" by (simp add: returned_pool_def)
  have ex: "threads (drained_pool\<lparr>threads := [Exited]\<rparr>) ! 0 = Exited" by simp
  note spec = test_servers_accounting [of one_relay_args full_schedule False returned_pool
      "[relay_10_result]" stopped_schedule False False stopped_pool drained_schedule False False
      drained_pool 0 0 timeout_host "drained_pool\<lparr>threads := [Exited]\<rparr>"]
  note a = spec [THEN conjunct1, THEN mp, OF conjI [OF full_run conjI [OF ns ret]]]
  note b = spec [THEN conjunct2, THEN conjunct1, THEN mp, OF stopped_run, THEN conjunct1]
  have mw: "1 \<le> arg_max_workers one_relay_args" by (simp add: one_relay_args_def)
  note c = spec [THEN conjunct2, THEN conjunct2, THEN conjunct1, THEN mp,
      OF conjI [OF drained_run conjI [OF drained_steps(2) ex]]]
  note d = spec [THEN conjunct2, THEN conjunct2, THEN conjunct2, THEN mp, OF mw]
  from a b c d show ?thesis by blast
qed

text \<open>
  C1 as stated fails: in the stopped run the one target is still held by the worker when
  \<open>test_servers\<close> returns the empty list with nothing skipped, and on the drained queue the
  worker goes on or exits depending on the number of other live threads.
\<close>

theorem stopped_run_counterexample:
  "run_schedule one_relay_args stopped_schedule (initial_pool one_relay_args False False) = Some stopped_pool
   \<and> coordinator stopped_pool = Returned []
   \<and> length ([] :: probe_result list) + length (skipped stopped_pool) \<noteq> length (arg_servers one_relay_args)
   \<and> run_schedule one_relay_args drained_schedule (initial_pool one_relay_args False False) = Some drained_pool
   \<and> server_queue drained_pool = []
   \<and> worker_step one_relay_args 0 5 timeout_host drained_pool = Some (drained_pool\<lparr>threads := [LoopHead]\<rparr>)
   \<and> worker_step one_relay_args 0 0 timeout_host drained_pool = Some (drained_pool\<lparr>threads := [Exited]\<rparr>)"
  using stopped_run drained_run drained_steps
  by (simp add: stopped_pool_def one_relay_args_def drained_pool_def)

end
